theory Spec2Isabelle
  imports Complex_Main "HOL-Library.Sublist"
begin

section \<open>Polygon triangulation (TwinScene.vue)\<close>

text \<open>
  JavaScript numbers are modelled as real numbers: the arithmetic of the source is taken
  exactly, without rounding, NaN or infinities. A raw polygon point is a JavaScript array
  of numbers, modelled as a \<open>real list\<close>; a ring point is a pair.
\<close>

type_synonym point = "real \<times> real"

text \<open>The loop of \<open>normalizeRing\<close> that pushes a point unless it equals the last pushed one.\<close>

fun collapse :: "point list \<Rightarrow> point list \<Rightarrow> point list" where
  "collapse cleaned [] = cleaned"
| "collapse cleaned (p # ring) =
     (if cleaned = [] \<or> last cleaned \<noteq> p then collapse (cleaned @ [p]) ring
      else collapse cleaned ring)"

definition dropClosing :: "point list \<Rightarrow> point list" where
  "dropClosing ring =
     (if 2 \<le> length ring \<and> hd ring = last ring then butlast ring else ring)"

text \<open>The \<open>filter\<close> and \<open>map\<close> of \<open>normalizeRing\<close>: arrays of two or more numbers, as pairs.\<close>

definition readPoints :: "real list list \<Rightarrow> point list" where
  "readPoints points = map (\<lambda>p. (p ! 0, p ! 1)) (filter (\<lambda>p. 2 \<le> length p) points)"

definition normalizeRing :: "real list list \<Rightarrow> point list" where
  "normalizeRing points = collapse [] (dropClosing (readPoints points))"

definition signedArea2D :: "point list \<Rightarrow> real" where
  "signedArea2D ring =
     (\<Sum>i\<leftarrow>[0..<length ring].
        fst (ring ! i) * snd (ring ! ((i + 1) mod length ring))
        - fst (ring ! ((i + 1) mod length ring)) * snd (ring ! i)) / 2"

definition cross :: "point \<Rightarrow> point \<Rightarrow> point \<Rightarrow> real" where
  "cross o' a b = (fst a - fst o') * (snd b - snd o') - (snd a - snd o') * (fst b - fst o')"

definition eps :: real where
  "eps = 1 / 10 ^ 12"

definition isPointInTriangle :: "point \<Rightarrow> point \<Rightarrow> point \<Rightarrow> point \<Rightarrow> bool" where
  "isPointInTriangle p a b c =
     (- eps \<le> cross a b p \<and> - eps \<le> cross b c p \<and> - eps \<le> cross c a p)"

text \<open>The three ring indices inspected at position \<open>pos\<close> of the active index list.\<close>

definition prevAt :: "nat list \<Rightarrow> nat \<Rightarrow> nat" where
  "prevAt indices pos = indices ! ((pos + length indices - 1) mod length indices)"

definition nextAt :: "nat list \<Rightarrow> nat \<Rightarrow> nat" where
  "nextAt indices pos = indices ! ((pos + 1) mod length indices)"

text \<open>
  The body of the inner \<open>for\<close> loop: position \<open>pos\<close> is clipped when its corner is convex
  and no other active vertex lies in its triangle.
\<close>

definition isEarAt :: "point list \<Rightarrow> nat list \<Rightarrow> nat \<Rightarrow> bool" where
  "isEarAt ringCCW indices pos =
     (let prev = prevAt indices pos; curr = indices ! pos; next = nextAt indices pos;
          a = ringCCW ! prev; b = ringCCW ! curr; c = ringCCW ! next
      in if cross a b c \<le> eps then False
         else \<not> list_ex (\<lambda>test. \<not> (test = prev \<or> test = curr \<or> test = next)
                                 \<and> isPointInTriangle (ringCCW ! test) a b c) indices)"

definition findEar :: "point list \<Rightarrow> nat list \<Rightarrow> nat option" where
  "findEar ringCCW indices = List.find (isEarAt ringCCW indices) [0..<length indices]"

definition splice1 :: "nat \<Rightarrow> 'a list \<Rightarrow> 'a list" where
  "splice1 pos xs = take pos xs @ drop (Suc pos) xs"

type_synonym triangle = "nat \<times> nat \<times> nat"

text \<open>
  The \<open>while\<close> loop of \<open>triangulateEarClipping\<close>. The result carries the remaining
  indices, the triangles pushed so far and the final value of \<open>guard\<close>, which counts the
  ear searches that were run.
\<close>

function earLoop :: "point list \<Rightarrow> nat \<Rightarrow> nat list \<Rightarrow> triangle list \<Rightarrow> nat
                       \<Rightarrow> nat list \<times> triangle list \<times> nat" where
  "earLoop ringCCW n indices triangles guard =
     (if 3 < length indices \<and> guard < n * n then
        (case findEar ringCCW indices of
           None \<Rightarrow> (indices, triangles, guard + 1)
         | Some pos \<Rightarrow>
             earLoop ringCCW n (splice1 pos indices)
               (triangles @ [(prevAt indices pos, indices ! pos, nextAt indices pos)])
               (guard + 1))
      else (indices, triangles, guard))"
  by pat_completeness auto
termination
  by (relation "measure (\<lambda>(ringCCW, n, indices, triangles, guard). n * n - guard)") auto

definition mapIndex :: "nat \<Rightarrow> nat \<Rightarrow> nat" where
  "mapIndex n i = n - 1 - i"

definition mapTriangle :: "(nat \<Rightarrow> nat) \<Rightarrow> triangle \<Rightarrow> triangle" where
  "mapTriangle f t = (case t of (a, b, c) \<Rightarrow> (f a, f b, f c))"

definition closeLast :: "nat list \<times> triangle list \<times> nat \<Rightarrow> triangle list" where
  "closeLast r =
     (case r of (indices, triangles, guard) \<Rightarrow>
        if length indices = 3 then triangles @ [(indices ! 0, indices ! 1, indices ! 2)]
        else triangles)"

definition clipRing :: "point list \<Rightarrow> triangle list" where
  "clipRing ringCCW =
     closeLast (earLoop ringCCW (length ringCCW) [0..<length ringCCW] [] 0)"

definition triangulateRing :: "point list \<Rightarrow> triangle list" where
  "triangulateRing ring =
     (if length ring < 3 then []
      else if signedArea2D ring < 0
        then map (mapTriangle (mapIndex (length ring))) (clipRing (rev ring))
        else clipRing ring)"

definition triangulateEarClipping :: "real list list \<Rightarrow> triangle list" where
  "triangulateEarClipping ringIn = triangulateRing (normalizeRing ringIn)"


subsection \<open>Measures used to state properties of a triangulation\<close>

text \<open>A triple of pairwise different indices, each below \<open>n\<close>.\<close>

definition validTriangle :: "nat \<Rightarrow> triangle \<Rightarrow> bool" where
  "validTriangle n t =
     (case t of (a, b, c) \<Rightarrow> a < n \<and> b < n \<and> c < n \<and> a \<noteq> b \<and> b \<noteq> c \<and> a \<noteq> c)"

text \<open>The three ring points an index triple refers to, and the area the triples cover.\<close>

definition trianglePoints :: "point list \<Rightarrow> triangle \<Rightarrow> point \<times> point \<times> point" where
  "trianglePoints ring t = (case t of (a, b, c) \<Rightarrow> (ring ! a, ring ! b, ring ! c))"

definition triangleArea :: "point \<times> point \<times> point \<Rightarrow> real" where
  "triangleArea t = (case t of (a, b, c) \<Rightarrow> \<bar>cross a b c\<bar> / 2)"

definition coveredArea :: "real list list \<Rightarrow> real" where
  "coveredArea ringIn =
     (\<Sum>t\<leftarrow>triangulateEarClipping ringIn. triangleArea (trianglePoints (normalizeRing ringIn) t))"

section \<open>JavaScript values and the sensor records\<close>

text \<open>
  A property of a JavaScript object may be absent (\<open>undefined\<close>) or \<open>null\<close>. Identifiers
  are strings; the empty string is falsy, like \<open>undefined\<close> and \<open>null\<close>.
\<close>

datatype 'a js = Undefined | Null | Val 'a

definition nullish :: "'a js \<Rightarrow> 'a js \<Rightarrow> 'a js" where
  \<comment> \<open>the operator \<open>??\<close>\<close>
  "nullish a b = (case a of Val v \<Rightarrow> Val v | _ \<Rightarrow> b)"

definition truthyStr :: "string js \<Rightarrow> bool" where
  "truthyStr v = (case v of Val s \<Rightarrow> s \<noteq> [] | _ \<Rightarrow> False)"

definition truthyBool :: "bool js \<Rightarrow> bool" where
  \<comment> \<open>\<open>Boolean(v)\<close> for a flag\<close>
  "truthyBool v = (case v of Val b \<Rightarrow> b | _ \<Rightarrow> False)"

definition strOr :: "string js \<Rightarrow> string" where
  \<comment> \<open>\<open>String(v || '')\<close>\<close>
  "strOr v = (case v of Val s \<Rightarrow> s | _ \<Rightarrow> [])"

record sensor =
  s_id :: "string js"
  s_type :: "string js"
  s_status :: "string js"
  s_is_alert :: "bool js"
  s_location :: "real list js"
  s_room_id :: "string js"
  s_room_name :: "string js"
  s_other :: "string \<rightharpoonup> string"

text \<open>The payload of a \<open>sensor_update\<close> socket event.\<close>

record sensor_update =
  u_sensor_id :: "string js"
  u_type :: "string js"
  u_new_status :: "string js"
  u_is_alert :: "bool js"
  u_location :: "real list js"
  u_room_id :: "string js"
  u_room_name :: "string js"

record app_state =
  sensors :: "string \<rightharpoonup> sensor"
  sensorsVersion :: nat

text \<open>The object \<open>{ id }\<close> that stands for a sensor not yet known.\<close>

definition newSensor :: "string \<Rightarrow> sensor" where
  "newSensor ident =
     \<lparr>s_id = Val ident, s_type = Undefined, s_status = Undefined, s_is_alert = Undefined,
      s_location = Undefined, s_room_id = Undefined, s_room_name = Undefined,
      s_other = Map.empty\<rparr>"

definition applySensorUpdate :: "sensor_update \<Rightarrow> app_state \<Rightarrow> app_state" where
  "applySensorUpdate update st =
     (if \<not> truthyStr (u_sensor_id update) then st
      else
        let ident = strOr (u_sensor_id update);
            existing = (case sensors st ident of Some e \<Rightarrow> e | None \<Rightarrow> newSensor ident)
        in st\<lparr>sensors := (sensors st)(ident \<mapsto>
                 existing\<lparr>s_id := Val ident,
                          s_type := nullish (u_type update) (s_type existing),
                          s_status := nullish (u_new_status update) (s_status existing),
                          s_is_alert := Val (truthyBool (u_is_alert update)),
                          s_location := nullish (u_location update) (s_location existing),
                          s_room_id := nullish (u_room_id update) (s_room_id existing),
                          s_room_name := nullish (u_room_name update) (s_room_name existing)\<rparr>),
               sensorsVersion := sensorsVersion st + 1\<rparr>)"

section \<open>The scene state of TwinScene.vue\<close>

type_synonym vec3 = "real \<times> real \<times> real"

record marker =
  m_name :: string
  m_position :: vec3
  m_color :: nat

record overlay =
  o_roomId :: string
  o_positions :: "real list"
  o_indices :: "nat list"
  o_color :: nat
  o_opacity :: real

record props =
  p_rooms :: "(string \<times> real list list js) list js"
  p_sensors :: "sensor list"
  p_worldOffset :: vec3
  p_visibility_sensors :: bool
  p_selectedRoomId :: string

text \<open>
  \<open>p_rooms\<close> is \<open>meshData.metadata.rooms\<close>: the entries of the object in the order of
  \<open>Object.entries\<close>, each room id with its \<open>polygon\<close> (\<open>Val\<close> when it is an array).
  \<open>sensorGroup\<close> is \<open>None\<close> before \<open>initThree\<close> and carries the \<open>visible\<close> flag of the
  group afterwards; \<open>roomOverlayGroup\<close> tells whether that group exists.
  \<open>orbitTarget\<close> is \<open>None\<close> when there are no orbit controls.
\<close>

record scene =
  sensorGroup :: "bool option"
  roomOverlayGroup :: bool
  sensorMeshes :: "string \<rightharpoonup> marker"
  roomOverlayMeshes :: "string \<rightharpoonup> overlay"
  alertRoomIds :: "string set"
  cameraPosition :: vec3
  cameraNear :: real
  cameraFar :: real
  orbitTarget :: "vec3 option"

subsection \<open>Sensor markers\<close>

text \<open>
  Strings are byte strings: \<open>toLowerCase\<close> maps the letters A to Z and leaves every other
  character as it is.
\<close>

definition lowerChar :: "char \<Rightarrow> char" where
  "lowerChar c =
     (case map_of (zip ''ABCDEFGHIJKLMNOPQRSTUVWXYZ'' ''abcdefghijklmnopqrstuvwxyz'') c of
        Some d \<Rightarrow> d
      | None \<Rightarrow> c)"

definition toLowerCase :: "string \<Rightarrow> string" where
  "toLowerCase s = map lowerChar s"

definition strIncludes :: "string \<Rightarrow> string \<Rightarrow> bool" where
  "strIncludes s k = sublist k s"

definition sensorColor :: "sensor \<Rightarrow> nat" where
  "sensorColor sensor =
     (if truthyBool (s_is_alert sensor) then 0xff4d4d
      else
        let type = toLowerCase (strOr (s_type sensor))
        in if strIncludes type ''pir'' then 0x60a5fa
           else if strIncludes type ''door'' then 0xfbbf24
           else if strIncludes type ''smoke'' then 0xa78bfa
           else if strIncludes type ''temp'' then 0x22d3ee
           else 0x22c55e)"

definition alerting :: "sensor \<Rightarrow> bool" where
  "alerting s = (truthyBool (s_is_alert s) \<and> truthyStr (s_room_id s))"

definition recomputeAlertRooms :: "props \<Rightarrow> scene \<Rightarrow> scene" where
  "recomputeAlertRooms pr st =
     st\<lparr>alertRoomIds :=
          fold (\<lambda>s nextAlertRooms.
                  if alerting s then insert (strOr (s_room_id s)) nextAlertRooms
                  else nextAlertRooms)
               (p_sensors pr) {}\<rparr>"

definition lift :: real where
  "lift = 0.08"

text \<open>One round of the \<open>for\<close> loop of \<open>updateSensors\<close> over \<open>keep\<close> and the marker map.\<close>

definition placeSensor ::
  "vec3 \<Rightarrow> sensor \<Rightarrow> string set \<times> (string \<rightharpoonup> marker) \<Rightarrow> string set \<times> (string \<rightharpoonup> marker)" where
  "placeSensor off sensor acc =
     (case acc of (keep, meshes) \<Rightarrow>
        if \<not> truthyStr (s_id sensor) then (keep, meshes)
        else
          let ident = strOr (s_id sensor); keep' = insert ident keep
          in (case s_location sensor of
                Val location \<Rightarrow>
                  if length location < 2 then (keep', meshes)
                  else
                    let rawX = location ! 0; rawY = location ! 1;
                        rawZ = (if 2 < length location then location ! 2 else 0);
                        (xOff, yOff, zOff) = off;
                        mesh = (case meshes ident of
                                  Some m \<Rightarrow> m
                                | None \<Rightarrow> \<lparr>m_name = ''sensor:'' @ ident, m_position = (0, 0, 0),
                                           m_color = sensorColor sensor\<rparr>)
                    in (keep', meshes(ident \<mapsto>
                          mesh\<lparr>m_position := (rawX - xOff, rawZ - zOff + lift, rawY - yOff),
                               m_color := sensorColor sensor\<rparr>))
              | _ \<Rightarrow> (keep', meshes)))"

definition updateSensors :: "props \<Rightarrow> scene \<Rightarrow> scene" where
  "updateSensors pr st =
     (case sensorGroup st of
        None \<Rightarrow> st
      | Some _ \<Rightarrow>
          let st1 = recomputeAlertRooms pr st;
              visible = p_visibility_sensors pr;
              st2 = st1\<lparr>sensorGroup := Some visible\<rparr>
          in if \<not> visible then st2
             else
               (case fold (placeSensor (p_worldOffset pr)) (p_sensors pr) ({}, sensorMeshes st2) of
                  (keep, meshes) \<Rightarrow> st2\<lparr>sensorMeshes := meshes |` keep\<rparr>))"

text \<open>The sensors of a list that the claim about markers calls eligible, and the listed ids.\<close>

definition eligible :: "sensor \<Rightarrow> bool" where
  "eligible s =
     (truthyStr (s_id s) \<and> (case s_location s of Val location \<Rightarrow> 2 \<le> length location | _ \<Rightarrow> False))"

definition eligibleIds :: "sensor list \<Rightarrow> string set" where
  "eligibleIds ss = set (map (\<lambda>s. strOr (s_id s)) (filter eligible ss))"

definition listedIds :: "sensor list \<Rightarrow> string set" where
  "listedIds ss = set (map (\<lambda>s. strOr (s_id s)) (filter (\<lambda>s. truthyStr (s_id s)) ss))"

text \<open>
  A scene as \<open>initThree\<close> leaves it, and the properties of a viewer that shows one
  located sensor, with the sensors layer switched on and off.
\<close>

definition initialScene :: scene where
  "initialScene =
     \<lparr>sensorGroup = Some True, roomOverlayGroup = True, sensorMeshes = Map.empty,
      roomOverlayMeshes = Map.empty, alertRoomIds = {}, cameraPosition = (6, 5, 6),
      cameraNear = 0.01, cameraFar = 2000, orbitTarget = Some (0, 0, 0)\<rparr>"

definition oneSensorProps :: "bool \<Rightarrow> props" where
  "oneSensorProps visible =
     \<lparr>p_rooms = Undefined,
      p_sensors = [(newSensor ''s1'')\<lparr>s_location := Val [1, 2, 0]\<rparr>],
      p_worldOffset = (0, 0, 0), p_visibility_sensors = visible, p_selectedRoomId = []\<rparr>"

subsection \<open>Room overlays\<close>

datatype error = TypeError

definition translateRing :: "vec3 \<Rightarrow> point list \<Rightarrow> real list list" where
  "translateRing off ring =
     (case off of (xOff, yOff, zOff) \<Rightarrow> map (\<lambda>(x, y). [x - xOff, y - yOff]) ring)"

definition buildOverlay :: "vec3 \<Rightarrow> string \<Rightarrow> real list list \<Rightarrow> triangle list \<Rightarrow> overlay" where
  "buildOverlay off roomId ring triangles =
     (case off of (xOff, yOff, zOff) \<Rightarrow>
        \<lparr>o_roomId = roomId,
         o_positions = concat (map (\<lambda>p. [p ! 0, p ! 1, 0.02 - zOff]) ring),
         o_indices = concat (map (\<lambda>(a, b, c). [a, b, c]) triangles),
         o_color = 0xff4d4d,
         o_opacity = 0\<rparr>)"

text \<open>
  The \<open>for\<close> loop of \<open>rebuildRoomOverlays\<close>. \<open>roomOverlayGroup.add\<close> is a TypeError when
  the group was never created; every other step is total.
\<close>

fun addOverlays ::
  "bool \<Rightarrow> vec3 \<Rightarrow> (string \<times> real list list js) list \<Rightarrow> (string \<rightharpoonup> overlay)
   \<Rightarrow> error + (string \<rightharpoonup> overlay)" where
  "addOverlays grp off [] meshes = Inr meshes"
| "addOverlays grp off ((roomId, polygon) # rooms) meshes =
     (case polygon of
        Val pts \<Rightarrow>
          let ring = translateRing off (normalizeRing pts);
              triangles = triangulateEarClipping ring
          in if triangles = [] then addOverlays grp off rooms meshes
             else if \<not> grp then Inl TypeError
             else addOverlays grp off rooms (meshes(roomId \<mapsto> buildOverlay off roomId ring triangles))
      | _ \<Rightarrow> addOverlays grp off rooms meshes)"

definition disposeRoomOverlays :: "scene \<Rightarrow> scene" where
  "disposeRoomOverlays st =
     (if \<not> roomOverlayGroup st then st else st\<lparr>roomOverlayMeshes := Map.empty\<rparr>)"

definition rebuildRoomOverlays :: "props \<Rightarrow> scene \<Rightarrow> error + scene" where
  "rebuildRoomOverlays pr st =
     (let st0 = disposeRoomOverlays st
      in case p_rooms pr of
           Val rooms \<Rightarrow>
             (case addOverlays (roomOverlayGroup st0) (p_worldOffset pr) rooms (roomOverlayMeshes st0) of
                Inl e \<Rightarrow> Inl e
              | Inr meshes \<Rightarrow> Inr (st0\<lparr>roomOverlayMeshes := meshes\<rparr>))
         | _ \<Rightarrow> Inr st0)"

definition animateOverlay :: "real \<Rightarrow> string \<Rightarrow> string set \<Rightarrow> string \<Rightarrow> overlay \<Rightarrow> overlay" where
  "animateOverlay pulse selected alerts roomId mesh =
     (if roomId \<in> alerts then mesh\<lparr>o_color := 0xff4d4d, o_opacity := 0.18 + pulse * 0.45\<rparr>
      else if selected \<noteq> [] \<and> roomId = selected then mesh\<lparr>o_color := 0x60a5fa, o_opacity := 0.22\<rparr>
      else mesh\<lparr>o_opacity := 0\<rparr>)"

definition updateRoomOverlayAnimation :: "real \<Rightarrow> props \<Rightarrow> scene \<Rightarrow> scene" where
  "updateRoomOverlayAnimation timeMs pr st =
     (if roomOverlayMeshes st = Map.empty then st
      else
        let t = timeMs / 1000;
            pulse = (sin (t * 7.0) + 1) / 2;
            selected = p_selectedRoomId pr
        in st\<lparr>roomOverlayMeshes :=
                (\<lambda>roomId. map_option (animateOverlay pulse selected (alertRoomIds st) roomId)
                                      (roomOverlayMeshes st roomId))\<rparr>)"

subsection \<open>Camera framing\<close>

text \<open>
  \<open>THREE.Box3.setFromObject\<close> belongs to three.js, not to the repository: the box it returns
  is a parameter of the model, \<open>None\<close> for the empty box (min \<open>+\<infinity>\<close>, max \<open>-\<infinity>\<close>, which
  \<open>Number.isFinite\<close> rejects) and \<open>Some (min, max)\<close> for finite bounds. \<open>getSize\<close> and
  \<open>getCenter\<close> follow three.js: the zero vector when max is below min on some axis.
\<close>

definition boxIsEmpty :: "vec3 \<times> vec3 \<Rightarrow> bool" where
  "boxIsEmpty b =
     (case b of ((x0, y0, z0), (x1, y1, z1)) \<Rightarrow> x1 < x0 \<or> y1 < y0 \<or> z1 < z0)"

definition getSize :: "vec3 \<times> vec3 \<Rightarrow> vec3" where
  "getSize b =
     (case b of ((x0, y0, z0), (x1, y1, z1)) \<Rightarrow>
        if boxIsEmpty b then (0, 0, 0) else (x1 - x0, y1 - y0, z1 - z0))"

definition getCenter :: "vec3 \<times> vec3 \<Rightarrow> vec3" where
  "getCenter b =
     (case b of ((x0, y0, z0), (x1, y1, z1)) \<Rightarrow>
        if boxIsEmpty b then (0, 0, 0) else ((x0 + x1) * 0.5, (y0 + y1) * 0.5, (z0 + z1) * 0.5))"

definition maxDim :: "vec3 \<times> vec3 \<Rightarrow> real" where
  "maxDim b = (case getSize b of (sx, sy, sz) \<Rightarrow> max (max sx sy) sz)"

definition camDist :: "vec3 \<times> vec3 \<Rightarrow> real" where
  "camDist b = max 2.5 (maxDim b * 1.5)"

definition fitCameraToModel :: "(vec3 \<times> vec3) option \<Rightarrow> scene \<Rightarrow> scene" where
  "fitCameraToModel box st =
     (case box of
        None \<Rightarrow> st
      | Some b \<Rightarrow>
          let center = getCenter b; dist = camDist b
          in case center of (cx, cy, cz) \<Rightarrow>
               st\<lparr>orbitTarget := map_option (\<lambda>_. center) (orbitTarget st),
                  cameraPosition := (cx + dist, cy + dist * 0.7, cz + dist),
                  cameraNear := 0.01,
                  cameraFar := max 200 (dist * 10)\<rparr>)"

text \<open>The Euclidean distance between two points of the scene.\<close>

definition distance3 :: "vec3 \<Rightarrow> vec3 \<Rightarrow> real" where
  "distance3 p q =
     (case p of (px, py, pz) \<Rightarrow> case q of (qx, qy, qz) \<Rightarrow>
        sqrt ((px - qx)\<^sup>2 + (py - qy)\<^sup>2 + (pz - qz)\<^sup>2))"

subsection \<open>Example inputs\<close>

text \<open>
  The quad of the specification, and a scene that holds its overlay for three rooms, the
  first of them alerting.
\<close>

definition quad :: "real list list" where
  "quad = [[0, 0], [4, 0], [4, 3], [0, 3]]"

definition threeOverlays :: scene where
  "threeOverlays =
     initialScene\<lparr>roomOverlayMeshes :=
                    [''r1'' \<mapsto> buildOverlay (0, 0, 0) ''r1'' quad [(3, 0, 1), (1, 2, 3)],
                     ''r2'' \<mapsto> buildOverlay (0, 0, 0) ''r2'' quad [(3, 0, 1), (1, 2, 3)],
                     ''r3'' \<mapsto> buildOverlay (0, 0, 0) ''r3'' quad [(3, 0, 1), (1, 2, 3)]],
                  alertRoomIds := {''r1''}\<rparr>"

section \<open>Properties of the ear-clipping loop\<close>

declare earLoop.simps [simp del]

lemma prev_pos_eq:
  "pos < m \<Longrightarrow> (pos + m - 1) mod m = (if pos = 0 then m - 1 else pos - 1)" for m :: nat
proof (cases "pos = 0")
  case True
  assume "pos < m"
  with True show ?thesis by simp
next
  case False
  assume "pos < m"
  have "pos + m - 1 = (pos - 1) + m" using False by simp
  then have "(pos + m - 1) mod m = (pos - 1) mod m" by simp
  with False \<open>pos < m\<close> show ?thesis by simp
qed

lemma next_pos_eq:
  "pos < m \<Longrightarrow> (pos + 1) mod m = (if pos + 1 = m then 0 else pos + 1)" for m :: nat
  by (simp add: mod_Suc)

lemma findEar_Some:
  "findEar r ix = Some pos \<Longrightarrow> pos < length ix \<and> isEarAt r ix pos"
  by (auto simp: findEar_def find_Some_iff)

lemma ear_triangle_valid:
  assumes "distinct ix" "set ix \<subseteq> {..<n}" "3 \<le> length ix" "pos < length ix"
  shows "validTriangle n (prevAt ix pos, ix ! pos, nextAt ix pos)"
proof -
  let ?m = "length ix"
  let ?p = "(pos + ?m - 1) mod ?m" and ?q = "(pos + 1) mod ?m"
  have "0 < ?m" using assms(3) by linarith
  then have p: "?p < ?m" and q: "?q < ?m" by (rule mod_less_divisor)+
  have pe: "?p = (if pos = 0 then ?m - 1 else pos - 1)"
    by (rule prev_pos_eq[OF assms(4)])
  have qe: "?q = (if pos + 1 = ?m then 0 else pos + 1)"
    by (rule next_pos_eq[OF assms(4)])
  have ne: "?p \<noteq> pos" "?q \<noteq> pos" "?p \<noteq> ?q"
    unfolding pe qe using assms(3,4) by (auto split: if_splits)
  have "ix ! ?p \<noteq> ix ! pos" "ix ! ?q \<noteq> ix ! pos" "ix ! ?p \<noteq> ix ! ?q"
    using ne p q assms(1,4) by (simp_all add: nth_eq_iff_index_eq)
  moreover have "ix ! ?p < n" "ix ! pos < n" "ix ! ?q < n"
    using assms(2,4) p q by (auto dest: nth_mem)
  ultimately show ?thesis
    by (auto simp: validTriangle_def prevAt_def nextAt_def)
qed

lemma splice1_distinct: "distinct xs \<Longrightarrow> distinct (splice1 pos xs)"
proof (cases "pos < length xs")
  case True
  assume d: "distinct xs"
  have "distinct (take pos xs @ xs ! pos # drop (Suc pos) xs)"
    using d id_take_nth_drop[OF True] by metis
  then show ?thesis by (simp add: splice1_def)
next
  case False
  assume "distinct xs"
  with False show ?thesis by (simp add: splice1_def)
qed

lemma splice1_set: "set (splice1 pos xs) \<subseteq> set xs"
proof -
  have "set (take pos xs) \<subseteq> set xs" by (rule set_take_subset)
  moreover have "set (drop (Suc pos) xs) \<subseteq> set xs" by (rule set_drop_subset)
  ultimately show ?thesis by (simp add: splice1_def)
qed

lemma splice1_length: "pos < length xs \<Longrightarrow> length (splice1 pos xs) = length xs - 1"
  by (auto simp: splice1_def)

lemma earLoop_stop:
  "\<not> (3 < length ix \<and> g < n * n) \<Longrightarrow> earLoop r n ix ts g = (ix, ts, g)"
  by (subst earLoop.simps) auto

lemma earLoop_none:
  "3 < length ix \<Longrightarrow> g < n * n \<Longrightarrow> findEar r ix = None \<Longrightarrow>
   earLoop r n ix ts g = (ix, ts, g + 1)"
  by (simp add: earLoop.simps)

lemma earLoop_some:
  "3 < length ix \<Longrightarrow> g < n * n \<Longrightarrow> findEar r ix = Some pos \<Longrightarrow>
   earLoop r n ix ts g =
     earLoop r n (splice1 pos ix) (ts @ [(prevAt ix pos, ix ! pos, nextAt ix pos)]) (g + 1)"
  by (simp add: earLoop.simps)

lemma earLoop_invariant:
  "distinct ix \<Longrightarrow> set ix \<subseteq> {..<n} \<Longrightarrow> 3 \<le> length ix \<Longrightarrow>
   list_all (validTriangle n) ts \<Longrightarrow> earLoop r n ix ts g = (ix', ts', g') \<Longrightarrow>
   distinct ix' \<and> set ix' \<subseteq> {..<n} \<and> 3 \<le> length ix' \<and> list_all (validTriangle n) ts'
   \<and> length ts' + length ix' = length ts + length ix"
proof (induction r n ix ts g rule: earLoop.induct)
  case (1 r n ix ts g)
  show ?case
  proof (cases "3 < length ix \<and> g < n * n")
    case False
    with "1.prems" show ?thesis by (simp add: earLoop_stop)
  next
    case True
    show ?thesis
    proof (cases "findEar r ix")
      case None
      with True "1.prems" show ?thesis by (simp add: earLoop_none)
    next
      case (Some pos)
      have pos: "pos < length ix" using findEar_Some[OF Some] by simp
      let ?t = "(prevAt ix pos, ix ! pos, nextAt ix pos)"
      have run: "earLoop r n (splice1 pos ix) (ts @ [?t]) (g + 1) = (ix', ts', g')"
        using "1.prems"(5) True Some by (simp add: earLoop_some)
      have d: "distinct (splice1 pos ix)" using "1.prems"(1) by (rule splice1_distinct)
      have s: "set (splice1 pos ix) \<subseteq> {..<n}" by (rule order_trans[OF splice1_set "1.prems"(2)])
      have l: "3 \<le> length (splice1 pos ix)" using True pos by (auto simp: splice1_length)
      have v: "list_all (validTriangle n) (ts @ [?t])"
        using "1.prems"(4) ear_triangle_valid[OF "1.prems"(1,2,3) pos] by simp
      from "1.IH"[OF True Some d s l v run] pos True show ?thesis
        by (auto simp: splice1_length)
    qed
  qed
qed

lemma earLoop_guard:
  "earLoop r n ix ts g = (ix', ts', g') \<Longrightarrow> g \<le> n * n \<Longrightarrow> g' \<le> n * n \<and> g \<le> g' \<and> prefix ts ts'"
proof (induction r n ix ts g rule: earLoop.induct)
  case (1 r n ix ts g)
  show ?case
  proof (cases "3 < length ix \<and> g < n * n")
    case False
    with "1.prems" show ?thesis by (simp add: earLoop_stop)
  next
    case True
    show ?thesis
    proof (cases "findEar r ix")
      case None
      with True "1.prems" show ?thesis by (auto simp add: earLoop_none)
    next
      case (Some pos)
      let ?t = "(prevAt ix pos, ix ! pos, nextAt ix pos)"
      have run: "earLoop r n (splice1 pos ix) (ts @ [?t]) (g + 1) = (ix', ts', g')"
        using "1.prems"(1) True Some by (simp add: earLoop_some)
      have g: "g + 1 \<le> n * n" using True by simp
      from "1.IH"[OF True Some run g] show ?thesis
        by (auto dest: append_prefixD)
    qed
  qed
qed

lemma mapTriangle_valid:
  "validTriangle n t \<Longrightarrow> validTriangle n (mapTriangle (mapIndex n) t)"
  by (auto simp: validTriangle_def mapTriangle_def mapIndex_def split: prod.splits)

lemma clipRing_valid:
  assumes "3 \<le> length r"
  shows "list_all (validTriangle (length r)) (clipRing r) \<and> length (clipRing r) + 2 \<le> length r"
proof -
  let ?n = "length r"
  obtain ix' ts' g' where run: "earLoop r ?n [0..<?n] [] 0 = (ix', ts', g')"
    by (cases "earLoop r ?n [0..<?n] [] 0") auto
  have inv: "distinct ix' \<and> set ix' \<subseteq> {..<?n} \<and> 3 \<le> length ix'
             \<and> list_all (validTriangle ?n) ts' \<and> length ts' + length ix' = length ([]::triangle list) + length [0..<?n]"
    by (rule earLoop_invariant[OF _ _ _ _ run]) (use assms in auto)
  show ?thesis
  proof (cases "length ix' = 3")
    case True
    have ne: "ix' ! 0 \<noteq> ix' ! 1" "ix' ! 1 \<noteq> ix' ! 2" "ix' ! 0 \<noteq> ix' ! 2"
      using inv True by (simp_all add: nth_eq_iff_index_eq)
    have lt: "ix' ! i < ?n" if "i < 3" for i
    proof -
      have "ix' ! i \<in> set ix'" using that True by (intro nth_mem) simp
      with inv show ?thesis by auto
    qed
    have "validTriangle ?n (ix' ! 0, ix' ! 1, ix' ! 2)"
      using ne lt[of 0] lt[of 1] lt[of 2] by (simp add: validTriangle_def)
    with inv True show ?thesis
      by (simp add: clipRing_def closeLast_def run)
  next
    case False
    with inv show ?thesis
      by (simp add: clipRing_def closeLast_def run)
  qed
qed

lemma triangulateRing_valid:
  "list_all (validTriangle (length ring)) (triangulateRing ring)
   \<and> (if length ring < 3 then triangulateRing ring = []
       else length (triangulateRing ring) + 2 \<le> length ring)"
proof (cases "length ring < 3")
  case True
  then show ?thesis by (simp add: triangulateRing_def)
next
  case False
  then have n: "3 \<le> length ring" "3 \<le> length (rev ring)" by simp_all
  from clipRing_valid[OF n(1)] clipRing_valid[OF n(2)] False show ?thesis
    by (auto simp: triangulateRing_def list_all_iff mapTriangle_valid)
qed

text \<open>
  Claim C10. For every input point list whose normalized ring has \<open>n\<close> vertices, every
  index triple returned by \<open>triangulateEarClipping\<close> has three pairwise different
  indices, each below \<open>n\<close>, and at most \<open>n - 2\<close> triangles are returned: none when
  \<open>n < 3\<close>, and otherwise the number of triangles plus two does not exceed \<open>n\<close>.
\<close>

theorem triangulate_index_triples:
  "(\<forall>(a, b, c) \<in> set (triangulateEarClipping ringIn).
      a < length (normalizeRing ringIn) \<and> b < length (normalizeRing ringIn)
      \<and> c < length (normalizeRing ringIn) \<and> a \<noteq> b \<and> b \<noteq> c \<and> a \<noteq> c)
   \<and> (if length (normalizeRing ringIn) < 3 then triangulateEarClipping ringIn = []
       else length (triangulateEarClipping ringIn) + 2 \<le> length (normalizeRing ringIn))"
  using triangulateRing_valid[of "normalizeRing ringIn"]
  unfolding triangulateEarClipping_def list_all_iff validTriangle_def by fastforce

theorem triangulate_index_triples_witness:
  "triangulateEarClipping [[0, 0], [4, 0], [4, 3], [0, 3]] = [(3, 0, 1), (1, 2, 3)]
   \<and> length (normalizeRing [[0, 0], [4, 0], [4, 3], [0, 3]]) = 4
   \<and> length (triangulateEarClipping [[0, 0], [4, 0], [4, 3], [0, 3]]) + 2
       \<le> length (normalizeRing [[0, 0], [4, 0], [4, 3], [0, 3]])"
proof -
  have n: "length (normalizeRing [[0, 0], [4, 0], [4, 3], [0, 3]]) = 4"
    by code_simp
  have t: "triangulateEarClipping [[0, 0], [4, 0], [4, 3], [0, 3]] = [(3, 0, 1), (1, 2, 3)]"
    by code_simp
  show ?thesis
    using triangulate_index_triples[of "[[0, 0], [4, 0], [4, 3], [0, 3]]"] t n by simp
qed

text \<open>
  Claim C5. The \<open>while\<close> loop of \<open>triangulateEarClipping\<close> is the total function
  \<open>earLoop\<close>, whose termination is proved from the measure \<open>n * n - guard\<close>, whatever
  the ring. Its counter of ear searches never passes \<open>n * n\<close>; the triangles pushed before
  a call are a prefix of those it returns; with the guard exhausted, or with no ear found, it
  returns the triangles it has. For the run started by \<open>clipRing\<close> on a ring of \<open>n\<close>
  vertices, at most \<open>n * n\<close> searches are made and the triangles of the loop are kept in
  the result.
\<close>

theorem earLoop_guard_bound:
  "(case earLoop ringCCW n indices triangles guard of
      (indices', triangles', guard') \<Rightarrow>
        (guard \<le> n * n \<longrightarrow> guard' \<le> n * n) \<and> prefix triangles triangles')
   \<and> (\<not> guard < n * n \<longrightarrow>
        earLoop ringCCW n indices triangles guard = (indices, triangles, guard))
   \<and> (3 < length indices \<and> guard < n * n \<and> findEar ringCCW indices = None \<longrightarrow>
        earLoop ringCCW n indices triangles guard = (indices, triangles, guard + 1))
   \<and> (case earLoop ringCCW (length ringCCW) [0..<length ringCCW] [] 0 of
        (indices', triangles', guard') \<Rightarrow>
          guard' \<le> length ringCCW * length ringCCW \<and> prefix triangles' (clipRing ringCCW))"
proof -
  obtain ix' ts' g' where run: "earLoop ringCCW n indices triangles guard = (ix', ts', g')"
    by (cases "earLoop ringCCW n indices triangles guard") auto
  have a: "(guard \<le> n * n \<longrightarrow> g' \<le> n * n) \<and> prefix triangles ts'"
  proof (cases "guard \<le> n * n")
    case True
    from earLoop_guard[OF run True] show ?thesis by simp
  next
    case False
    then have "earLoop ringCCW n indices triangles guard = (indices, triangles, guard)"
      by (intro earLoop_stop) simp
    with run False show ?thesis by simp
  qed
  let ?m = "length ringCCW"
  obtain ix2 ts2 g2 where run2: "earLoop ringCCW ?m [0..<?m] [] 0 = (ix2, ts2, g2)"
    by (cases "earLoop ringCCW ?m [0..<?m] [] 0") auto
  have b: "g2 \<le> ?m * ?m" using earLoop_guard[OF run2] by simp
  have c: "prefix ts2 (clipRing ringCCW)"
    by (simp add: clipRing_def closeLast_def run2)
  have d: "\<not> guard < n * n \<longrightarrow>
           earLoop ringCCW n indices triangles guard = (indices, triangles, guard)"
    by (simp add: earLoop_stop)
  have e: "3 < length indices \<and> guard < n * n \<and> findEar ringCCW indices = None \<longrightarrow>
           earLoop ringCCW n indices triangles guard = (indices, triangles, guard + 1)"
    by (simp add: earLoop_none)
  show ?thesis
    using a b c d e by (simp add: run run2)
qed

theorem earLoop_guard_bound_witness:
  "earLoop [(0, 0), (1, 0), (2, 0), (3, 0)] 4 [0, 1, 2, 3] [] 0 = ([0, 1, 2, 3], [], 1)
   \<and> findEar [(0, 0), (1, 0), (2, 0), (3, 0)] [0, 1, 2, 3] = None
   \<and> earLoop [(0, 0), (1, 0), (2, 0), (3, 0)] 4 [0, 1, 2, 3] [] 16 = ([0, 1, 2, 3], [], 16)
   \<and> clipRing [(0, 0), (1, 0), (2, 0), (3, 0)] = []"
proof -
  have f: "findEar [(0, 0), (1, 0), (2, 0), (3, 0)] [0, 1, 2, 3] = None"
    by code_simp
  have c: "clipRing [(0, 0), (1, 0), (2, 0), (3, 0)] = []"
    by code_simp
  show ?thesis
    using earLoop_guard_bound[where ringCCW = "[(0, 0), (1, 0), (2, 0), (3, 0)]" and n = 4
        and indices = "[0, 1, 2, 3]" and triangles = "[]" and guard = 0]
      earLoop_guard_bound[where ringCCW = "[(0, 0), (1, 0), (2, 0), (3, 0)]" and n = 4
        and indices = "[0, 1, 2, 3]" and triangles = "[]" and guard = 16] f c
    by simp
qed

section \<open>Sensor records and colours\<close>

text \<open>
  Claim C3, as amended. For an existing sensor record and an update event with that record's
  (non-empty) \<open>sensor_id\<close>, each of \<open>type\<close>, \<open>status\<close> (from \<open>new_status\<close>),
  \<open>location\<close>, \<open>room_id\<close> and \<open>room_name\<close> takes the event's value when the event
  gives one and keeps its previous value when the event leaves it undefined or null;
  \<open>is_alert\<close> is always \<open>Boolean(update.is_alert)\<close>, hence false when the event leaves it
  out; the other properties of the record, the other sensors and nothing else change, and
  the version counter grows by one.
\<close>

theorem applySensorUpdate_merge:
  assumes "u_sensor_id update = Val ident" and "ident \<noteq> []"
    and "sensors st ident = Some existing"
  shows "\<exists>r. sensors (applySensorUpdate update st) ident = Some r
           \<and> s_id r = Val ident
           \<and> s_type r = (case u_type update of Val v \<Rightarrow> Val v | _ \<Rightarrow> s_type existing)
           \<and> s_status r = (case u_new_status update of Val v \<Rightarrow> Val v | _ \<Rightarrow> s_status existing)
           \<and> s_location r = (case u_location update of Val v \<Rightarrow> Val v | _ \<Rightarrow> s_location existing)
           \<and> s_room_id r = (case u_room_id update of Val v \<Rightarrow> Val v | _ \<Rightarrow> s_room_id existing)
           \<and> s_room_name r = (case u_room_name update of Val v \<Rightarrow> Val v | _ \<Rightarrow> s_room_name existing)
           \<and> s_is_alert r = Val (u_is_alert update = Val True)
           \<and> s_other r = s_other existing
           \<and> (\<forall>k. k \<noteq> ident \<longrightarrow> sensors (applySensorUpdate update st) k = sensors st k)
           \<and> sensorsVersion (applySensorUpdate update st) = sensorsVersion st + 1"
  using assms
  by (auto simp: applySensorUpdate_def truthyStr_def strOr_def nullish_def truthyBool_def Let_def
           split: js.splits)

theorem applySensorUpdate_merge_witness:
  "sensors
     (applySensorUpdate
        \<lparr>u_sensor_id = Val ''s1'', u_type = Undefined, u_new_status = Val ''open'',
         u_is_alert = Val True, u_location = Null, u_room_id = Undefined,
         u_room_name = Undefined\<rparr>
        \<lparr>sensors = [''s1'' \<mapsto> (newSensor ''s1'')\<lparr>s_type := Val ''DoorContact'',
                                  s_status := Val ''closed'', s_location := Val [3, 0.5, 0]\<rparr>],
         sensorsVersion = 4\<rparr>) ''s1''
   = Some ((newSensor ''s1'')\<lparr>s_type := Val ''DoorContact'', s_status := Val ''open'',
             s_is_alert := Val True, s_location := Val [3, 0.5, 0]\<rparr>)"
  using applySensorUpdate_merge[of
      "\<lparr>u_sensor_id = Val ''s1'', u_type = Undefined, u_new_status = Val ''open'',
         u_is_alert = Val True, u_location = Null, u_room_id = Undefined,
         u_room_name = Undefined\<rparr>" "''s1''"
      "\<lparr>sensors = [''s1'' \<mapsto> (newSensor ''s1'')\<lparr>s_type := Val ''DoorContact'',
                                  s_status := Val ''closed'', s_location := Val [3, 0.5, 0]\<rparr>],
         sensorsVersion = 4\<rparr>"
      "(newSensor ''s1'')\<lparr>s_type := Val ''DoorContact'',
                                  s_status := Val ''closed'', s_location := Val [3, 0.5, 0]\<rparr>"]
  by (auto simp: newSensor_def)

text \<open>
  The claim as stated fails for \<open>is_alert\<close>: an alerting sensor that receives an event
  without \<open>is_alert\<close> stops alerting.
\<close>

theorem applySensorUpdate_is_alert_counterexample:
  "s_is_alert ((newSensor ''s1'')\<lparr>s_is_alert := Val True\<rparr>) = Val True
   \<and> u_is_alert \<lparr>u_sensor_id = Val ''s1'', u_type = Undefined, u_new_status = Undefined,
         u_is_alert = Undefined, u_location = Undefined, u_room_id = Undefined,
         u_room_name = Undefined\<rparr> = Undefined
   \<and> sensors
     (applySensorUpdate
        \<lparr>u_sensor_id = Val ''s1'', u_type = Undefined, u_new_status = Undefined,
         u_is_alert = Undefined, u_location = Undefined, u_room_id = Undefined,
         u_room_name = Undefined\<rparr>
        \<lparr>sensors = [''s1'' \<mapsto> (newSensor ''s1'')\<lparr>s_is_alert := Val True\<rparr>],
         sensorsVersion = 0\<rparr>) ''s1''
   = Some ((newSensor ''s1'')\<lparr>s_is_alert := Val False\<rparr>)"
  by (simp add: applySensorUpdate_def truthyStr_def strOr_def nullish_def truthyBool_def
        newSensor_def Let_def)

lemmas eval_color = sensorColor_def truthyBool_def strOr_def toLowerCase_def lowerChar_def
  strIncludes_def sublist_code newSensor_def Let_def

text \<open>
  Claim C6, as amended. An alerting sensor has the warning colour \<open>0xff4d4d\<close> whatever
  its type. Otherwise the colour follows the first of the keywords \<open>pir\<close>, \<open>door\<close>,
  \<open>smoke\<close>, \<open>temp\<close> that occurs in the lower-cased type string (\<open>0x60a5fa\<close>,
  \<open>0xfbbf24\<close>, \<open>0xa78bfa\<close>, \<open>0x22d3ee\<close>), and is the default \<open>0x22c55e\<close> when none
  occurs; the six colours are pairwise different.
\<close>

theorem sensorColor_rule:
  "(truthyBool (s_is_alert sensor) \<longrightarrow> sensorColor sensor = 0xff4d4d)
   \<and> (\<not> truthyBool (s_is_alert sensor) \<longrightarrow>
        sensorColor sensor =
          (let type = toLowerCase (strOr (s_type sensor))
           in if sublist ''pir'' type then 0x60a5fa
              else if sublist ''door'' type then 0xfbbf24
              else if sublist ''smoke'' type then 0xa78bfa
              else if sublist ''temp'' type then 0x22d3ee
              else 0x22c55e))
   \<and> distinct [0xff4d4d, 0x60a5fa, 0xfbbf24, 0xa78bfa, 0x22d3ee, 0x22c55e :: nat]"
  by (simp add: sensorColor_def strIncludes_def Let_def)

theorem sensorColor_rule_witness:
  "sensorColor ((newSensor ''motion_01'')\<lparr>s_type := Val ''PIR'', s_is_alert := Val False\<rparr>) = 0x60a5fa
   \<and> sensorColor ((newSensor ''door_main'')\<lparr>s_type := Val ''DoorContact''\<rparr>) = 0xfbbf24
   \<and> sensorColor ((newSensor ''smoke_01'')\<lparr>s_type := Val ''Smoke'', s_is_alert := Val True\<rparr>) = 0xff4d4d"
  using sensorColor_rule[of "(newSensor ''motion_01'')\<lparr>s_type := Val ''PIR'', s_is_alert := Val False\<rparr>"]
    sensorColor_rule[of "(newSensor ''door_main'')\<lparr>s_type := Val ''DoorContact''\<rparr>"]
    sensorColor_rule[of "(newSensor ''smoke_01'')\<lparr>s_type := Val ''Smoke'', s_is_alert := Val True\<rparr>"]
  by (simp add: truthyBool_def strOr_def toLowerCase_def lowerChar_def sublist_code newSensor_def)

text \<open>
  The keyword of the motion category is \<open>pir\<close>: a sensor whose type is the word
  \<open>motion\<close> gets the default colour, the colour of a type that matches no keyword.
\<close>

theorem sensorColor_motion_counterexample:
  "sensorColor ((newSensor ''m1'')\<lparr>s_type := Val ''motion'', s_is_alert := Val False\<rparr>) = 0x22c55e
   \<and> sensorColor ((newSensor ''m1'')\<lparr>s_type := Val ''motion'', s_is_alert := Val False\<rparr>)
       = sensorColor ((newSensor ''m2'')\<lparr>s_type := Val ''humidity'', s_is_alert := Val False\<rparr>)
   \<and> sensorColor ((newSensor ''m3'')\<lparr>s_type := Val ''temperature'', s_is_alert := Val False\<rparr>) = 0x22d3ee"
  by (simp add: eval_color)

section \<open>Alert rooms and sensor markers\<close>

lemma fold_alert:
  "fold (\<lambda>s acc. if alerting s then insert (strOr (s_room_id s)) acc else acc) ss A
   = A \<union> (\<lambda>s. strOr (s_room_id s)) ` {s \<in> set ss. alerting s}"
  by (induction ss arbitrary: A) auto

lemma alerting_iff:
  "alerting s \<longleftrightarrow> truthyBool (s_is_alert s) \<and> (\<exists>r. s_room_id s = Val r \<and> r \<noteq> [])"
  by (auto simp: alerting_def truthyStr_def split: js.splits)

lemma alertRoomIds_recompute:
  "alertRoomIds (recomputeAlertRooms pr st)
   = {r. r \<noteq> [] \<and> (\<exists>s \<in> set (p_sensors pr). truthyBool (s_is_alert s) \<and> s_room_id s = Val r)}"
proof -
  have "alertRoomIds (recomputeAlertRooms pr st)
        = (\<lambda>s. strOr (s_room_id s)) ` {s \<in> set (p_sensors pr). alerting s}"
    by (simp add: recomputeAlertRooms_def fold_alert)
  also have "\<dots> = {r. r \<noteq> [] \<and> (\<exists>s \<in> set (p_sensors pr).
                          truthyBool (s_is_alert s) \<and> s_room_id s = Val r)}"
    by (force simp: alerting_iff strOr_def image_iff)
  finally show ?thesis .
qed

lemma alertRoomIds_updateSensors:
  "sensorGroup st \<noteq> None \<Longrightarrow>
   alertRoomIds (updateSensors pr st) = alertRoomIds (recomputeAlertRooms pr st)"
  by (auto simp: updateSensors_def Let_def split: option.splits prod.splits)

text \<open>
  Claim C8. \<open>recomputeAlertRooms\<close> sets the alert set to exactly the room ids of the
  sensors with \<open>is_alert\<close> true, a sensor being a member of the room named by its
  \<open>room_id\<close> (an absent or empty \<open>room_id\<close> names no room); \<open>updateSensors\<close>, which
  runs after every change of the sensor list, leaves that set whenever the scene is
  initialised, whatever the sensors-visibility flag; for the two sensors of the example the
  set is \<open>{r1}\<close>.
\<close>

theorem alert_rooms_exact:
  "alertRoomIds (recomputeAlertRooms pr st)
     = {r. r \<noteq> [] \<and> (\<exists>s \<in> set (p_sensors pr). truthyBool (s_is_alert s) \<and> s_room_id s = Val r)}
   \<and> (sensorGroup st \<noteq> None \<longrightarrow>
        alertRoomIds (updateSensors pr st)
          = {r. r \<noteq> [] \<and> (\<exists>s \<in> set (p_sensors pr). truthyBool (s_is_alert s) \<and> s_room_id s = Val r)})
   \<and> alertRoomIds
        (recomputeAlertRooms
           (pr\<lparr>p_sensors := [(newSensor ''s1'')\<lparr>s_room_id := Val ''r1'', s_is_alert := Val True\<rparr>,
                              (newSensor ''s2'')\<lparr>s_room_id := Val ''r2'', s_is_alert := Val False\<rparr>]\<rparr>)
           st)
       = {''r1''}"
proof -
  have "alertRoomIds
        (recomputeAlertRooms
           (pr\<lparr>p_sensors := [(newSensor ''s1'')\<lparr>s_room_id := Val ''r1'', s_is_alert := Val True\<rparr>,
                              (newSensor ''s2'')\<lparr>s_room_id := Val ''r2'', s_is_alert := Val False\<rparr>]\<rparr>)
           st)
       = {''r1''}"
    by (simp add: recomputeAlertRooms_def alerting_def truthyBool_def truthyStr_def strOr_def
          newSensor_def)
  then show ?thesis
    using alertRoomIds_recompute[of pr st] alertRoomIds_updateSensors[of st pr] by simp
qed

theorem alert_rooms_exact_witness:
  "alertRoomIds (updateSensors
        (oneSensorProps True\<lparr>p_sensors :=
            [(newSensor ''s1'')\<lparr>s_room_id := Val ''r1'', s_is_alert := Val True\<rparr>,
             (newSensor ''s2'')\<lparr>s_room_id := Val ''r2'', s_is_alert := Val False\<rparr>,
             (newSensor ''s3'')\<lparr>s_room_id := Val ''r3'', s_is_alert := Val True\<rparr>]\<rparr>)
        initialScene) = {''r1'', ''r3''}"
proof -
  let ?pr = "oneSensorProps True\<lparr>p_sensors :=
            [(newSensor ''s1'')\<lparr>s_room_id := Val ''r1'', s_is_alert := Val True\<rparr>,
             (newSensor ''s2'')\<lparr>s_room_id := Val ''r2'', s_is_alert := Val False\<rparr>,
             (newSensor ''s3'')\<lparr>s_room_id := Val ''r3'', s_is_alert := Val True\<rparr>]\<rparr>"
  have g: "sensorGroup initialScene \<noteq> None" by (simp add: initialScene_def)
  have "alertRoomIds (updateSensors ?pr initialScene)
        = {r. r \<noteq> [] \<and> (\<exists>s \<in> set (p_sensors ?pr). truthyBool (s_is_alert s) \<and> s_room_id s = Val r)}"
    using alert_rooms_exact[of ?pr initialScene] g by blast
  also have "\<dots> = {''r1'', ''r3''}"
    by (auto simp: truthyBool_def newSensor_def)
  finally show ?thesis .
qed

lemma truthyStr_iff: "truthyStr v \<longleftrightarrow> (\<exists>s. v = Val s \<and> s \<noteq> [])"
  by (cases v) (simp_all add: truthyStr_def)

lemma eligible_iff:
  "eligible s \<longleftrightarrow>
     (\<exists>i loc. s_id s = Val i \<and> i \<noteq> [] \<and> s_location s = Val loc \<and> 2 \<le> length loc)"
  by (cases "s_location s") (auto simp: eligible_def truthyStr_iff)

lemma eligibleIds_iff:
  "i \<in> eligibleIds ss \<longleftrightarrow>
     i \<noteq> [] \<and> (\<exists>s \<in> set ss. s_id s = Val i \<and> (\<exists>loc. s_location s = Val loc \<and> 2 \<le> length loc))"
proof
  assume "i \<in> eligibleIds ss"
  then obtain s where s: "s \<in> set ss" "eligible s" "i = strOr (s_id s)"
    by (auto simp: eligibleIds_def)
  from s(2) obtain j loc where j: "s_id s = Val j" "j \<noteq> []" "s_location s = Val loc" "2 \<le> length loc"
    unfolding eligible_iff by blast
  with s(3) have "i = j" by (simp add: strOr_def)
  with s(1) j show "i \<noteq> [] \<and> (\<exists>s \<in> set ss. s_id s = Val i \<and> (\<exists>loc. s_location s = Val loc \<and> 2 \<le> length loc))"
    by blast
next
  assume "i \<noteq> [] \<and> (\<exists>s \<in> set ss. s_id s = Val i \<and> (\<exists>loc. s_location s = Val loc \<and> 2 \<le> length loc))"
  then obtain s loc where s: "i \<noteq> []" "s \<in> set ss" "s_id s = Val i" "s_location s = Val loc" "2 \<le> length loc"
    by blast
  then have "eligible s" "strOr (s_id s) = i"
    unfolding eligible_iff by (simp_all add: strOr_def)
  with s(2) have "i \<in> (\<lambda>s. strOr (s_id s)) ` {s \<in> set ss. eligible s}" by blast
  then show "i \<in> eligibleIds ss" by (simp add: eligibleIds_def)
qed

lemma listedIds_iff:
  "i \<in> listedIds ss \<longleftrightarrow> i \<noteq> [] \<and> (\<exists>s \<in> set ss. s_id s = Val i)"
proof
  assume "i \<in> listedIds ss"
  then obtain s where s: "s \<in> set ss" "truthyStr (s_id s)" "i = strOr (s_id s)"
    by (auto simp: listedIds_def)
  from s(2) obtain j where j: "s_id s = Val j" "j \<noteq> []"
    unfolding truthyStr_iff by blast
  with s(3) have "i = j" by (simp add: strOr_def)
  with s(1) j show "i \<noteq> [] \<and> (\<exists>s \<in> set ss. s_id s = Val i)" by blast
next
  assume "i \<noteq> [] \<and> (\<exists>s \<in> set ss. s_id s = Val i)"
  then obtain s where s: "i \<noteq> []" "s \<in> set ss" "s_id s = Val i" by blast
  then have "truthyStr (s_id s)" "strOr (s_id s) = i"
    by (simp_all add: truthyStr_iff strOr_def)
  with s(2) have "i \<in> (\<lambda>s. strOr (s_id s)) ` {s \<in> set ss. truthyStr (s_id s)}" by blast
  then show "i \<in> listedIds ss" by (simp add: listedIds_def)
qed

lemma eligible_listed: "eligibleIds ss \<subseteq> listedIds ss"
  by (auto simp: eligibleIds_iff listedIds_iff)

lemma placeSensor_keep:
  "fst (placeSensor off s (keep, meshes))
   = (if truthyStr (s_id s) then insert (strOr (s_id s)) keep else keep)"
  by (simp add: placeSensor_def Let_def split: js.splits prod.splits)

lemma placeSensor_dom:
  "dom (snd (placeSensor off s (keep, meshes)))
   = (if eligible s then insert (strOr (s_id s)) (dom meshes) else dom meshes)"
  by (auto simp: placeSensor_def eligible_def Let_def split: js.splits prod.splits)

lemma fold_placeSensor:
  "fst (fold (placeSensor off) ss (keep, meshes)) = keep \<union> listedIds ss
   \<and> dom (snd (fold (placeSensor off) ss (keep, meshes))) = dom meshes \<union> eligibleIds ss"
proof (induction ss arbitrary: keep meshes)
  case Nil
  show ?case by (simp add: listedIds_def eligibleIds_def)
next
  case (Cons s ss)
  obtain keep' meshes' where step: "placeSensor off s (keep, meshes) = (keep', meshes')"
    by (cases "placeSensor off s (keep, meshes)") auto
  have k: "keep' = (if truthyStr (s_id s) then insert (strOr (s_id s)) keep else keep)"
    using placeSensor_keep[of off s keep meshes] step by simp
  have d: "dom meshes' = (if eligible s then insert (strOr (s_id s)) (dom meshes) else dom meshes)"
    using placeSensor_dom[of off s keep meshes] step by simp
  show ?case
    using Cons.IH[of keep' meshes'] k d
    by (auto simp: step listedIds_def eligibleIds_def)
qed


lemma updateSensors_hidden:
  "sensorGroup st = Some v \<Longrightarrow> \<not> p_visibility_sensors pr \<Longrightarrow>
   sensorMeshes (updateSensors pr st) = sensorMeshes st
   \<and> sensorGroup (updateSensors pr st) = Some False"
  by (simp add: updateSensors_def recomputeAlertRooms_def Let_def)

lemma updateSensors_visible_dom:
  assumes "sensorGroup st = Some v" and "p_visibility_sensors pr"
  shows "dom (sensorMeshes (updateSensors pr st))
         = eligibleIds (p_sensors pr) \<union> (dom (sensorMeshes st) \<inter> listedIds (p_sensors pr))"
proof -
  let ?st2 = "(recomputeAlertRooms pr st)\<lparr>sensorGroup := Some True\<rparr>"
  obtain keep meshes where f:
    "fold (placeSensor (p_worldOffset pr)) (p_sensors pr) ({}, sensorMeshes st) = (keep, meshes)"
    by (cases "fold (placeSensor (p_worldOffset pr)) (p_sensors pr) ({}, sensorMeshes st)") auto
  have km: "keep = listedIds (p_sensors pr)"
    "dom meshes = dom (sensorMeshes st) \<union> eligibleIds (p_sensors pr)"
    using fold_placeSensor[of "p_worldOffset pr" "p_sensors pr" "{}" "sensorMeshes st"] f
    by simp_all
  have "sensorMeshes (updateSensors pr st) = meshes |` keep"
    using assms f by (simp add: updateSensors_def recomputeAlertRooms_def Let_def)
  then have "dom (sensorMeshes (updateSensors pr st)) = dom meshes \<inter> keep" by simp
  with km eligible_listed[of "p_sensors pr"] show ?thesis by auto
qed

lemma oneSensor_eligible: "eligibleIds (p_sensors (oneSensorProps v)) = {''s1''}"
  by (simp add: eligibleIds_def eligible_def oneSensorProps_def newSensor_def truthyStr_def
        strOr_def)

text \<open>
  Claim C1, as amended. In an initialised scene, a call of \<open>updateSensors\<close> with the
  sensors-visibility flag off hides the marker group and leaves the marker map as it was.
  With the flag on, every sensor of the list with a non-empty id and a location of at least
  two components has a marker, every marker belongs to a sensor of the list, no marker is
  new except those of such sensors, and the key set is exactly the set of their ids whenever
  no earlier marker belongs to a listed sensor that now lacks such a location (for instance
  when the map was empty before).
\<close>

theorem updateSensors_markers:
  assumes "sensorGroup st = Some v"
  shows "(\<forall>i. i \<in> eligibleIds (p_sensors pr) \<longleftrightarrow>
             i \<noteq> [] \<and> (\<exists>s \<in> set (p_sensors pr). s_id s = Val i
                           \<and> (\<exists>loc. s_location s = Val loc \<and> 2 \<le> length loc)))
       \<and> (\<not> p_visibility_sensors pr \<longrightarrow>
            sensorMeshes (updateSensors pr st) = sensorMeshes st
            \<and> sensorGroup (updateSensors pr st) = Some False)
       \<and> (p_visibility_sensors pr \<longrightarrow>
            sensorGroup (updateSensors pr st) = Some True
            \<and> eligibleIds (p_sensors pr) \<subseteq> dom (sensorMeshes (updateSensors pr st))
            \<and> dom (sensorMeshes (updateSensors pr st)) \<subseteq> listedIds (p_sensors pr)
            \<and> dom (sensorMeshes (updateSensors pr st))
                \<subseteq> eligibleIds (p_sensors pr) \<union> dom (sensorMeshes st)
            \<and> (dom (sensorMeshes st) \<inter> listedIds (p_sensors pr) \<subseteq> eligibleIds (p_sensors pr) \<longrightarrow>
                 dom (sensorMeshes (updateSensors pr st)) = eligibleIds (p_sensors pr)))"
proof -
  have a: "\<forall>i. i \<in> eligibleIds (p_sensors pr) \<longleftrightarrow>
             i \<noteq> [] \<and> (\<exists>s \<in> set (p_sensors pr). s_id s = Val i
                           \<and> (\<exists>loc. s_location s = Val loc \<and> 2 \<le> length loc))"
    by (simp add: eligibleIds_iff)
  have b: "\<not> p_visibility_sensors pr \<longrightarrow>
            sensorMeshes (updateSensors pr st) = sensorMeshes st
            \<and> sensorGroup (updateSensors pr st) = Some False"
    using updateSensors_hidden[OF assms] by blast
  have g: "p_visibility_sensors pr \<longrightarrow> sensorGroup (updateSensors pr st) = Some True"
    using assms by (simp add: updateSensors_def Let_def split: prod.splits)
  have c: "p_visibility_sensors pr \<longrightarrow>
           dom (sensorMeshes (updateSensors pr st))
           = eligibleIds (p_sensors pr) \<union> (dom (sensorMeshes st) \<inter> listedIds (p_sensors pr))"
    using updateSensors_visible_dom[OF assms] by blast
  show ?thesis
  proof (cases "p_visibility_sensors pr")
    case False
    with a b show ?thesis by blast
  next
    case True
    with c have e: "dom (sensorMeshes (updateSensors pr st))
           = eligibleIds (p_sensors pr) \<union> (dom (sensorMeshes st) \<inter> listedIds (p_sensors pr))"
      by blast
    have "eligibleIds (p_sensors pr) \<subseteq> dom (sensorMeshes (updateSensors pr st))"
      and "dom (sensorMeshes (updateSensors pr st)) \<subseteq> listedIds (p_sensors pr)"
      and "dom (sensorMeshes (updateSensors pr st))
                \<subseteq> eligibleIds (p_sensors pr) \<union> dom (sensorMeshes st)"
      and "dom (sensorMeshes st) \<inter> listedIds (p_sensors pr) \<subseteq> eligibleIds (p_sensors pr) \<longrightarrow>
                 dom (sensorMeshes (updateSensors pr st)) = eligibleIds (p_sensors pr)"
      unfolding e using eligible_listed[of "p_sensors pr"] by blast+
    with a True g show ?thesis by blast
  qed
qed

theorem updateSensors_markers_witness:
  "sensorGroup initialScene = Some True
   \<and> dom (sensorMeshes (updateSensors (oneSensorProps True) initialScene)) = {''s1''}
   \<and> sensorGroup (updateSensors (oneSensorProps True) initialScene) = Some True
   \<and> sensorMeshes (updateSensors (oneSensorProps False) initialScene) = Map.empty
   \<and> sensorGroup (updateSensors (oneSensorProps False) initialScene) = Some False"
proof -
  have g: "sensorGroup initialScene = Some True" by (simp add: initialScene_def)
  have m: "sensorMeshes initialScene = Map.empty" by (simp add: initialScene_def)
  have v: "p_visibility_sensors (oneSensorProps True)" "\<not> p_visibility_sensors (oneSensorProps False)"
    by (simp_all add: oneSensorProps_def)
  show ?thesis
    using updateSensors_markers[OF g, of "oneSensorProps True"]
      updateSensors_markers[OF g, of "oneSensorProps False"] g v
    by (simp add: oneSensor_eligible m)
qed

text \<open>
  The claim as stated fails when the flag is off: the marker created while the layer was
  shown is still in the map after a sync with the layer hidden.
\<close>

theorem updateSensors_hidden_counterexample:
  "\<not> p_visibility_sensors (oneSensorProps False)
   \<and> dom (sensorMeshes (updateSensors (oneSensorProps False)
                            (updateSensors (oneSensorProps True) initialScene))) = {''s1''}"
proof -
  have "sensorMeshes (updateSensors (oneSensorProps True) initialScene)
        = [''s1'' \<mapsto> \<lparr>m_name = ''sensor:s1'', m_position = (1, 0.08, 2), m_color = 0x22c55e\<rparr>]"
    by (simp add: updateSensors_def oneSensorProps_def initialScene_def recomputeAlertRooms_def
        placeSensor_def Let_def newSensor_def truthyStr_def strOr_def lift_def alerting_def
        truthyBool_def eval_color)
  moreover have "sensorGroup (updateSensors (oneSensorProps True) initialScene) = Some True"
    by (simp add: updateSensors_def oneSensorProps_def initialScene_def Let_def
          split: prod.splits)
  ultimately show ?thesis
    by (simp add: updateSensors_def oneSensorProps_def recomputeAlertRooms_def Let_def)
qed

text \<open>
  With the flag on, a listed sensor that has lost its location keeps the marker it had:
  its id enters \<open>keep\<close> before the location is tested.
\<close>

lemma updateSensors_stale_marker_example:
  "eligibleIds (p_sensors ((oneSensorProps True)\<lparr>p_sensors := [newSensor ''s1'']\<rparr>)) = {}
   \<and> dom (sensorMeshes (updateSensors ((oneSensorProps True)\<lparr>p_sensors := [newSensor ''s1'']\<rparr>)
                            (updateSensors (oneSensorProps True) initialScene))) = {''s1''}"
proof -
  have "sensorMeshes (updateSensors (oneSensorProps True) initialScene)
        = [''s1'' \<mapsto> \<lparr>m_name = ''sensor:s1'', m_position = (1, 0.08, 2), m_color = 0x22c55e\<rparr>]"
    by (simp add: updateSensors_def oneSensorProps_def initialScene_def recomputeAlertRooms_def
        placeSensor_def Let_def newSensor_def truthyStr_def strOr_def lift_def alerting_def
        truthyBool_def eval_color)
  moreover have "sensorGroup (updateSensors (oneSensorProps True) initialScene) = Some True"
    by (simp add: updateSensors_def oneSensorProps_def initialScene_def Let_def
          split: prod.splits)
  ultimately show ?thesis
    by (simp add: updateSensors_def oneSensorProps_def recomputeAlertRooms_def Let_def
          placeSensor_def newSensor_def truthyStr_def strOr_def eligibleIds_def eligible_def)
qed

section \<open>Overlay animation\<close>

text \<open>Bounds on \<open>pi\<close> from the Taylor polynomial of the sine, for the period of the pulse.\<close>

lemma sum_upto12:
  "(\<Sum>m<12. f m) = f 0 + f 1 + f 2 + f 3 + f 4 + f 5 + f 6 + f 7 + f 8 + f 9 + f 10 + f 11"
  for f :: "nat \<Rightarrow> real"
proof -
  have "{..<12::nat} = {0, 1, 2, 3, 4, 5, 6, 7, 8, 9, 10, 11}" by (auto; arith)
  then show ?thesis by simp
qed

lemma sin_coeff_values:
  "sin_coeff 0 = 0" "sin_coeff 1 = 1" "sin_coeff 2 = 0" "sin_coeff 3 = - 1 / 6"
  "sin_coeff 4 = 0" "sin_coeff 5 = 1 / 120" "sin_coeff 6 = 0" "sin_coeff 7 = - 1 / 5040"
  "sin_coeff 8 = 0" "sin_coeff 9 = 1 / 362880" "sin_coeff 10 = 0"
  "sin_coeff 11 = - 1 / 39916800"
  by (simp_all add: sin_coeff_def fact_numeral)

lemma sin_taylor12:
  "(\<Sum>m<12. sin_coeff m * x ^ m)
   = x - x^3 / 6 + x^5 / 120 - x^7 / 5040 + x^9 / 362880 - x^11 / 39916800" for x :: real
  unfolding sum_upto12 sin_coeff_values by simp

lemma sin_31_pos: "0 < sin (3.1::real)"
proof -
  have "\<bar>sin (3.1::real) - (\<Sum>m<12. sin_coeff m * 3.1 ^ m)\<bar> \<le> inverse (fact 12) * \<bar>3.1\<bar> ^ 12"
    by (rule Maclaurin_sin_bound)
  then have "(\<Sum>m<12. sin_coeff m * (3.1::real) ^ m) - inverse (fact 12) * \<bar>3.1\<bar> ^ 12 \<le> sin 3.1"
    by linarith
  moreover have "0 < (\<Sum>m<12. sin_coeff m * (3.1::real) ^ m) - inverse (fact 12) * \<bar>3.1\<bar> ^ 12"
    unfolding sin_taylor12 by (simp add: fact_numeral power_divide)
  ultimately show ?thesis by linarith
qed

lemma sin_32_neg: "sin (3.2::real) < 0"
proof -
  have "\<bar>sin (3.2::real) - (\<Sum>m<12. sin_coeff m * 3.2 ^ m)\<bar> \<le> inverse (fact 12) * \<bar>3.2\<bar> ^ 12"
    by (rule Maclaurin_sin_bound)
  then have "sin 3.2 \<le> (\<Sum>m<12. sin_coeff m * (3.2::real) ^ m) + inverse (fact 12) * \<bar>3.2\<bar> ^ 12"
    by linarith
  moreover have "(\<Sum>m<12. sin_coeff m * (3.2::real) ^ m) + inverse (fact 12) * \<bar>3.2\<bar> ^ 12 < 0"
    unfolding sin_taylor12 by (simp add: fact_numeral power_divide)
  ultimately show ?thesis by linarith
qed

lemma pi_bounds: "(3.1::real) < pi" "pi < (3.2::real)"
proof -
  show "(3.1::real) < pi"
  proof (rule ccontr)
    assume "\<not> (3.1::real) < pi"
    then have "pi \<le> (3.1::real)" by simp
    moreover have "(3.1::real) < 2 * pi" using pi_ge_two by linarith
    ultimately have "sin (3.1::real) \<le> 0" by (rule sin_le_zero)
    with sin_31_pos show False by linarith
  qed
  show "pi < (3.2::real)"
  proof (rule ccontr)
    assume "\<not> pi < (3.2::real)"
    then have "(3.2::real) \<le> pi" by simp
    then have "0 \<le> sin (3.2::real)" by (intro sin_ge_zero) simp_all
    with sin_32_neg show False by linarith
  qed
qed


lemma pulse_range_aux:
  "- 1 \<le> y \<Longrightarrow> y \<le> 1 \<Longrightarrow>
   0.18 \<le> 0.18 + (y + 1) / 2 * 0.45 \<and> 0.18 + (y + 1) / 2 * 0.45 \<le> (0.63::real)"
  by (simp add: field_simps)

lemma pulse_range: "0.18 \<le> 0.18 + (sin x + 1) / 2 * 0.45 \<and> 0.18 + (sin x + 1) / 2 * 0.45 \<le> (0.63::real)"
  by (rule pulse_range_aux) simp_all

lemma pulse_periodic: "sin ((timeMs + 2000 * pi / 7) / 1000 * 7.0) = sin (timeMs / 1000 * 7.0)"
proof -
  have "(timeMs + 2000 * pi / 7) / 1000 * 7.0 = timeMs / 1000 * 7.0 + 2 * pi"
    by (simp add: field_simps)
  then show ?thesis by (simp only: sin_periodic)
qed

lemma animateOverlay_cases:
  "(roomId \<in> alerts \<longrightarrow>
      o_color (animateOverlay pulse selected alerts roomId mesh) = 0xff4d4d
      \<and> o_opacity (animateOverlay pulse selected alerts roomId mesh) = 0.18 + pulse * 0.45)
   \<and> (roomId \<notin> alerts \<and> selected \<noteq> [] \<and> roomId = selected \<longrightarrow>
      o_color (animateOverlay pulse selected alerts roomId mesh) = 0x60a5fa
      \<and> o_opacity (animateOverlay pulse selected alerts roomId mesh) = 0.22)
   \<and> (roomId \<notin> alerts \<and> \<not> (selected \<noteq> [] \<and> roomId = selected) \<longrightarrow>
      o_color (animateOverlay pulse selected alerts roomId mesh) = o_color mesh
      \<and> o_opacity (animateOverlay pulse selected alerts roomId mesh) = 0)
   \<and> o_roomId (animateOverlay pulse selected alerts roomId mesh) = o_roomId mesh
   \<and> o_positions (animateOverlay pulse selected alerts roomId mesh) = o_positions mesh
   \<and> o_indices (animateOverlay pulse selected alerts roomId mesh) = o_indices mesh"
  by (simp add: animateOverlay_def)

lemma animation_lookup:
  "roomOverlayMeshes st roomId = Some mesh \<Longrightarrow>
   roomOverlayMeshes (updateRoomOverlayAnimation timeMs pr st) roomId
   = Some (animateOverlay ((sin (timeMs / 1000 * 7.0) + 1) / 2) (p_selectedRoomId pr)
             (alertRoomIds st) roomId mesh)"
  by (auto simp: updateRoomOverlayAnimation_def Let_def)

lemma animation_dom:
  "dom (roomOverlayMeshes (updateRoomOverlayAnimation timeMs pr st)) = dom (roomOverlayMeshes st)"
  by (auto simp: updateRoomOverlayAnimation_def Let_def dom_def)

lemma animation_periodic:
  "updateRoomOverlayAnimation (timeMs + 2000 * pi / 7) pr st = updateRoomOverlayAnimation timeMs pr st"
  unfolding updateRoomOverlayAnimation_def Let_def pulse_periodic ..

text \<open>
  Claim C7. On a tick at time \<open>timeMs\<close>, every resident overlay stays in the map with its
  geometry. If its room is in the alert set, its colour is the warning colour \<open>0xff4d4d\<close>
  and its opacity is \<open>0.18 + 0.45 * (sin (7 * timeMs / 1000) + 1) / 2\<close>, which lies in
  \<open>[0.18, 0.63]\<close>, reaches both ends, and repeats after \<open>2 * pi / 7\<close> seconds, a period
  between 0.885 and 0.915 seconds. Otherwise, if it is the selected room, its colour is
  \<open>0x60a5fa\<close> and its opacity 0.22; otherwise its opacity is 0 and its colour is kept.
  Numbers are real numbers, so the sine is exact.
\<close>

theorem overlay_animation:
  assumes "roomOverlayMeshes st roomId = Some mesh"
  shows "\<exists>mesh'. roomOverlayMeshes (updateRoomOverlayAnimation timeMs pr st) roomId = Some mesh'
     \<and> (roomId \<in> alertRoomIds st \<longrightarrow>
          o_color mesh' = 0xff4d4d
          \<and> o_opacity mesh' = 0.18 + (sin (timeMs / 1000 * 7) + 1) / 2 * 0.45
          \<and> 0.18 \<le> o_opacity mesh' \<and> o_opacity mesh' \<le> 0.63)
     \<and> (roomId \<notin> alertRoomIds st \<and> p_selectedRoomId pr \<noteq> [] \<and> roomId = p_selectedRoomId pr \<longrightarrow>
          o_color mesh' = 0x60a5fa \<and> o_opacity mesh' = 0.22)
     \<and> (roomId \<notin> alertRoomIds st \<and> \<not> (p_selectedRoomId pr \<noteq> [] \<and> roomId = p_selectedRoomId pr) \<longrightarrow>
          o_opacity mesh' = 0 \<and> o_color mesh' = o_color mesh)
     \<and> o_roomId mesh' = o_roomId mesh \<and> o_positions mesh' = o_positions mesh
     \<and> o_indices mesh' = o_indices mesh
     \<and> dom (roomOverlayMeshes (updateRoomOverlayAnimation timeMs pr st)) = dom (roomOverlayMeshes st)
     \<and> updateRoomOverlayAnimation (timeMs + 2000 * pi / 7) pr st
         = updateRoomOverlayAnimation timeMs pr st
     \<and> 0.885 < 2 * pi / 7 \<and> 2 * pi / 7 < 0.915
     \<and> 0.18 + (sin (1000 * pi / 14 / 1000 * 7) + 1) / 2 * 0.45 = (0.63::real)
     \<and> 0.18 + (sin (3000 * pi / 14 / 1000 * 7) + 1) / 2 * 0.45 = (0.18::real)"
proof -
  let ?m = "animateOverlay ((sin (timeMs / 1000 * 7.0) + 1) / 2) (p_selectedRoomId pr)
             (alertRoomIds st) roomId mesh"
  have l: "roomOverlayMeshes (updateRoomOverlayAnimation timeMs pr st) roomId = Some ?m"
    by (rule animation_lookup[OF assms])
  have p: "0.885 < 2 * pi / 7 \<and> 2 * pi / 7 < 0.915"
    using pi_bounds by simp
  have "1000 * pi / 14 / 1000 * 7 = pi / 2" "3000 * pi / 14 / 1000 * 7 = pi + pi / 2"
    by simp_all
  then have e: "sin (1000 * pi / 14 / 1000 * 7) = 1" "sin (3000 * pi / 14 / 1000 * 7) = - 1"
    by (simp_all only: sin_pi_half sin_periodic_pi2)
  have x: "0.18 + (sin (1000 * pi / 14 / 1000 * 7) + 1) / 2 * 0.45 = (0.63::real)"
     "0.18 + (sin (3000 * pi / 14 / 1000 * 7) + 1) / 2 * 0.45 = (0.18::real)"
    unfolding e by simp_all
  have c1: "roomId \<in> alertRoomIds st \<longrightarrow>
          o_color ?m = 0xff4d4d
          \<and> o_opacity ?m = 0.18 + (sin (timeMs / 1000 * 7) + 1) / 2 * 0.45
          \<and> 0.18 \<le> o_opacity ?m \<and> o_opacity ?m \<le> 0.63"
    using pulse_range[of "timeMs / 1000 * 7"] by (simp add: animateOverlay_def)
  have c2: "roomId \<notin> alertRoomIds st \<and> p_selectedRoomId pr \<noteq> [] \<and> roomId = p_selectedRoomId pr \<longrightarrow>
          o_color ?m = 0x60a5fa \<and> o_opacity ?m = 0.22"
    by (auto simp: animateOverlay_def)
  have c3: "roomId \<notin> alertRoomIds st \<and> \<not> (p_selectedRoomId pr \<noteq> [] \<and> roomId = p_selectedRoomId pr) \<longrightarrow>
          o_opacity ?m = 0 \<and> o_color ?m = o_color mesh"
    by (auto simp: animateOverlay_def)
  have c4: "o_roomId ?m = o_roomId mesh" "o_positions ?m = o_positions mesh"
    "o_indices ?m = o_indices mesh"
    by (simp_all add: animateOverlay_def)
  have p1: "0.885 < 2 * pi / 7" and p2: "2 * pi / 7 < 0.915" using p by simp_all
  show ?thesis
    apply (rule exI[of _ ?m])
    apply (intro conjI)
    apply (rule l c1 c2 c3 c4 animation_dom animation_periodic p1 p2 x)+
    done
qed

theorem overlay_animation_witness:
  "map_option (\<lambda>m. (o_color m, o_opacity m))
     (roomOverlayMeshes
        (updateRoomOverlayAnimation 0 ((oneSensorProps True)\<lparr>p_selectedRoomId := ''r2''\<rparr>)
           threeOverlays) ''r1'') = Some (0xff4d4d, 0.405)
   \<and> map_option (\<lambda>m. (o_color m, o_opacity m))
     (roomOverlayMeshes
        (updateRoomOverlayAnimation 0 ((oneSensorProps True)\<lparr>p_selectedRoomId := ''r2''\<rparr>)
           threeOverlays) ''r2'') = Some (0x60a5fa, 0.22)
   \<and> map_option (\<lambda>m. (o_color m, o_opacity m))
     (roomOverlayMeshes
        (updateRoomOverlayAnimation 0 ((oneSensorProps True)\<lparr>p_selectedRoomId := ''r2''\<rparr>)
           threeOverlays) ''r3'') = Some (0xff4d4d, 0)"
proof -
  let ?pr = "(oneSensorProps True)\<lparr>p_selectedRoomId := ''r2''\<rparr>"
  let ?o = "\<lambda>r. buildOverlay (0, 0, 0) r quad [(3, 0, 1), (1, 2, 3)]"
  have m: "roomOverlayMeshes threeOverlays ''r1'' = Some (?o ''r1'')"
    "roomOverlayMeshes threeOverlays ''r2'' = Some (?o ''r2'')"
    "roomOverlayMeshes threeOverlays ''r3'' = Some (?o ''r3'')"
    by (simp_all add: threeOverlays_def)
  have a: "alertRoomIds threeOverlays = {''r1''}" "p_selectedRoomId ?pr = ''r2''"
    by (simp_all add: threeOverlays_def)
  have c: "o_color (?o ''r3'') = 0xff4d4d" by (simp add: buildOverlay_def)
  show ?thesis
    using overlay_animation[OF m(1), of 0 ?pr] overlay_animation[OF m(2), of 0 ?pr]
      overlay_animation[OF m(3), of 0 ?pr]
    unfolding a c by auto
qed

section \<open>Camera framing\<close>

lemma camDist_pos: "0 < camDist b"
  by (simp add: camDist_def)

lemma camera_distance:
  "distance3 (cx + d, cy + d * 0.7, cz + d) (cx, cy, cz) = \<bar>d\<bar> * sqrt 2.49"
proof -
  have "(cx + d - cx)\<^sup>2 + (cy + d * 0.7 - cy)\<^sup>2 + (cz + d - cz)\<^sup>2 = d\<^sup>2 * 2.49"
    by (simp add: power2_eq_square field_simps)
  then have "distance3 (cx + d, cy + d * 0.7, cz + d) (cx, cy, cz) = sqrt (d\<^sup>2 * 2.49)"
    by (simp only: distance3_def prod.case)
  also have "\<dots> = sqrt (d\<^sup>2) * sqrt 2.49" by (rule real_sqrt_mult)
  also have "sqrt (d\<^sup>2) = \<bar>d\<bar>" by (rule real_sqrt_abs)
  finally show ?thesis .
qed

text \<open>
  Claim C9, as amended. With the empty box \<open>fitCameraToModel\<close> changes nothing. With
  finite bounds it moves the orbit target (when there are orbit controls) to the centre of
  the box and the camera to the centre plus \<open>d * (1, 0.7, 1)\<close>, where
  \<open>d = max 2.5 (1.5 * maxDim)\<close> and \<open>maxDim\<close> is the largest dimension of the box; the
  Euclidean distance of the camera from the centre is then \<open>d * sqrt 2.49\<close>.
\<close>

theorem fitCameraToModel_frames:
  "fitCameraToModel None st = st
   \<and> (case getCenter b of (cx, cy, cz) \<Rightarrow>
        cameraPosition (fitCameraToModel (Some b) st)
          = (cx + camDist b, cy + camDist b * 0.7, cz + camDist b))
   \<and> orbitTarget (fitCameraToModel (Some b) st) = map_option (\<lambda>_. getCenter b) (orbitTarget st)
   \<and> camDist b = max 2.5 (maxDim b * 1.5)
   \<and> distance3 (cameraPosition (fitCameraToModel (Some b) st)) (getCenter b)
       = camDist b * sqrt 2.49
   \<and> (case b of ((x0, y0, z0), (x1, y1, z1)) \<Rightarrow>
        x0 \<le> x1 \<and> y0 \<le> y1 \<and> z0 \<le> z1 \<longrightarrow>
          getCenter b = ((x0 + x1) / 2, (y0 + y1) / 2, (z0 + z1) / 2)
          \<and> maxDim b = max (max (x1 - x0) (y1 - y0)) (z1 - z0))"
proof -
  obtain cx cy cz where c: "getCenter b = (cx, cy, cz)" by (cases "getCenter b") auto
  have p: "cameraPosition (fitCameraToModel (Some b) st)
           = (cx + camDist b, cy + camDist b * 0.7, cz + camDist b)"
    by (simp add: fitCameraToModel_def c Let_def)
  have d: "distance3 (cameraPosition (fitCameraToModel (Some b) st)) (getCenter b)
           = camDist b * sqrt 2.49"
    unfolding p c camera_distance using camDist_pos[of b] by simp
  have t: "orbitTarget (fitCameraToModel (Some b) st) = map_option (\<lambda>_. getCenter b) (orbitTarget st)"
    by (simp add: fitCameraToModel_def c Let_def)
  have w: "case b of ((x0, y0, z0), (x1, y1, z1)) \<Rightarrow>
        x0 \<le> x1 \<and> y0 \<le> y1 \<and> z0 \<le> z1 \<longrightarrow>
          getCenter b = ((x0 + x1) / 2, (y0 + y1) / 2, (z0 + z1) / 2)
          \<and> maxDim b = max (max (x1 - x0) (y1 - y0)) (z1 - z0)"
    by (auto simp: getCenter_def maxDim_def getSize_def boxIsEmpty_def split: prod.splits)
  show ?thesis
    using p d t w by (simp add: c fitCameraToModel_def camDist_def)
qed

theorem fitCameraToModel_frames_witness:
  "cameraPosition (fitCameraToModel (Some ((0, 0, 0), (2, 2, 2))) initialScene) = (4, 3.1, 4)
   \<and> orbitTarget (fitCameraToModel (Some ((0, 0, 0), (2, 2, 2))) initialScene) = Some (1, 1, 1)
   \<and> camDist ((0, 0, 0), (2, 2, 2)) = 3
   \<and> cameraPosition (fitCameraToModel None initialScene) = (6, 5, 6)"
proof -
  have o: "orbitTarget initialScene = Some (0, 0, 0)" "cameraPosition initialScene = (6, 5, 6)"
    by (simp_all add: initialScene_def)
  have d: "camDist ((0, 0, 0), (2, 2, 2)) = 3"
    by (simp add: camDist_def maxDim_def getSize_def boxIsEmpty_def)
  have c: "getCenter ((0, 0, 0), (2, 2, 2)) = (1, 1, 1)"
    by (simp add: getCenter_def boxIsEmpty_def)
  show ?thesis
    using fitCameraToModel_frames[of initialScene "((0, 0, 0), (2, 2, 2))"]
    unfolding c d by (simp add: o)
qed

text \<open>
  The camera is not at distance \<open>d\<close> from the centre: for the box from \<open>(0, 0, 0)\<close> to
  \<open>(2, 2, 2)\<close>, \<open>d\<close> is 3 and the camera is at \<open>(4, 3.1, 4)\<close>, at distance
  \<open>3 * sqrt 2.49\<close> from \<open>(1, 1, 1)\<close>.
\<close>

theorem fitCameraToModel_distance_counterexample:
  "camDist ((0, 0, 0), (2, 2, 2)) = 3
   \<and> distance3 (cameraPosition (fitCameraToModel (Some ((0, 0, 0), (2, 2, 2))) initialScene))
        (getCenter ((0, 0, 0), (2, 2, 2)))
      \<noteq> camDist ((0, 0, 0), (2, 2, 2))"
proof -
  have d: "camDist ((0, 0, 0), (2, 2, 2)) = 3"
    by (simp add: camDist_def maxDim_def getSize_def boxIsEmpty_def)
  have c: "getCenter ((0, 0, 0), (2, 2, 2)) = (1, 1, 1)"
    by (simp add: getCenter_def boxIsEmpty_def)
  have p: "cameraPosition (fitCameraToModel (Some ((0, 0, 0), (2, 2, 2))) initialScene) = (1 + 3, 1 + 3 * 0.7, 1 + 3)"
    by (simp add: fitCameraToModel_def c d Let_def)
  have "sqrt 2.49 \<noteq> sqrt 1" unfolding real_sqrt_eq_iff by simp
  then have "3 * sqrt 2.49 \<noteq> 3" by simp
  then show ?thesis unfolding p c d camera_distance by simp
qed

section \<open>Winding order\<close>

lemma signedArea2D_sum:
  "signedArea2D ring =
     (\<Sum>i<length ring. fst (ring ! i) * snd (ring ! ((i + 1) mod length ring))
        - fst (ring ! ((i + 1) mod length ring)) * snd (ring ! i)) / 2"
  by (simp add: signedArea2D_def interv_sum_list_conv_sum_set_nat atLeast0LessThan)

lemma signedArea2D_rev: "signedArea2D (rev ring) = - signedArea2D ring"
proof (cases "length ring")
  case 0
  then show ?thesis by (simp add: signedArea2D_def)
next
  case (Suc m)
  define g where "g i j = fst (ring ! i) * snd (ring ! j) - fst (ring ! j) * snd (ring ! i)"
    for i j
  have anti: "g i j = - g j i" for i j by (simp add: g_def)
  have step: "(i + 1) mod Suc m = i + 1" if "i < m" for i using that by simp
  have A: "signedArea2D ring * 2 = (\<Sum>i<m. g i (i + 1)) + g m 0"
  proof -
    have "signedArea2D ring * 2 = (\<Sum>i<Suc m. g i ((i + 1) mod Suc m))"
      by (simp add: signedArea2D_sum Suc g_def)
    also have "\<dots> = (\<Sum>i<m. g i ((i + 1) mod Suc m)) + g m ((m + 1) mod Suc m)"
      by (rule sum.lessThan_Suc)
    also have "(\<Sum>i<m. g i ((i + 1) mod Suc m)) = (\<Sum>i<m. g i (i + 1))"
      by (rule sum.cong) (simp_all add: step)
    also have "g m ((m + 1) mod Suc m) = g m 0" by simp
    finally show ?thesis .
  qed
  have nth: "rev ring ! i = ring ! (m - i)" if "i \<le> m" for i
    using that by (simp add: rev_nth Suc)
  have B: "signedArea2D (rev ring) * 2 = (\<Sum>i<m. g (m - i) (m - (i + 1))) + g 0 m"
  proof -
    have "signedArea2D (rev ring) * 2
          = (\<Sum>i<Suc m. fst (rev ring ! i) * snd (rev ring ! ((i + 1) mod Suc m))
               - fst (rev ring ! ((i + 1) mod Suc m)) * snd (rev ring ! i))"
      by (simp add: signedArea2D_sum Suc)
    also have "\<dots> = (\<Sum>i<Suc m. g (m - i) (m - ((i + 1) mod Suc m)))"
    proof (rule sum.cong)
      fix i assume "i \<in> {..<Suc m}"
      then have i: "i \<le> m" by simp
      have j: "(i + 1) mod Suc m \<le> m"
        by (metis less_Suc_eq_le mod_less_divisor zero_less_Suc)
      show "fst (rev ring ! i) * snd (rev ring ! ((i + 1) mod Suc m))
               - fst (rev ring ! ((i + 1) mod Suc m)) * snd (rev ring ! i)
            = g (m - i) (m - ((i + 1) mod Suc m))"
        by (simp only: nth[OF i] nth[OF j] g_def)
    qed simp
    also have "\<dots> = (\<Sum>i<m. g (m - i) (m - ((i + 1) mod Suc m))) + g (m - m) (m - ((m + 1) mod Suc m))"
      by (rule sum.lessThan_Suc)
    also have "(\<Sum>i<m. g (m - i) (m - ((i + 1) mod Suc m))) = (\<Sum>i<m. g (m - i) (m - (i + 1)))"
      by (rule sum.cong) (simp_all add: step)
    also have "g (m - m) (m - ((m + 1) mod Suc m)) = g 0 m" by simp
    finally show ?thesis .
  qed
  have "(\<Sum>i<m. g (m - i) (m - (i + 1))) = (\<Sum>i<m. - g (m - Suc i) (m - Suc i + 1))"
  proof (rule sum.cong)
    fix i assume "i \<in> {..<m}"
    then have "m - Suc i + 1 = m - i" by auto
    then show "g (m - i) (m - (i + 1)) = - g (m - Suc i) (m - Suc i + 1)"
      using anti[of "m - i" "m - (i + 1)"] by simp
  qed simp
  also have "\<dots> = (\<Sum>i<m. - g i (i + 1))"
    by (rule sum.nat_diff_reindex)
  also have "\<dots> = - (\<Sum>i<m. g i (i + 1))" by (rule sum_negf)
  finally have "signedArea2D (rev ring) * 2 = - (signedArea2D ring * 2)"
    using A B anti[of 0 m] by simp
  then show ?thesis by simp
qed

lemma signedArea2D_short: "length ring < 3 \<Longrightarrow> signedArea2D ring = 0"
proof -
  assume "length ring < 3"
  then consider "ring = []" | a where "ring = [a]" | a b where "ring = [a, b]"
    by (cases ring; cases "tl ring"; cases "tl (tl ring)") auto
  then show ?thesis
  proof cases
    case 1 then show ?thesis by (simp add: signedArea2D_def)
  next
    case 2 then show ?thesis by (simp add: signedArea2D_def)
  next
    case 3
    have "[0..<2] = [0, 1]" by (simp add: upt_rec)
    with 3 show ?thesis by (simp add: signedArea2D_def)
  qed
qed

lemma collapse_remdups_adj:
  "remdups_adj acc = acc \<Longrightarrow> collapse acc xs = remdups_adj (acc @ xs)"
proof (induction xs arbitrary: acc)
  case Nil
  then show ?case by simp
next
  case (Cons p xs)
  show ?case
  proof (cases "acc = [] \<or> last acc \<noteq> p")
    case True
    have "remdups_adj (acc @ [p]) = acc @ [p]"
      using True Cons.prems by (simp add: remdups_adj_append')
    then show ?thesis using True Cons.IH[of "acc @ [p]"] by simp
  next
    case False
    then have acc: "acc \<noteq> []" "last acc = p" by simp_all
    have "remdups_adj (acc @ p # xs) = remdups_adj (acc @ xs)"
      unfolding remdups_adj_append''[OF acc(1)] by (simp add: acc(2))
    then show ?thesis using False Cons.IH[OF Cons.prems] by simp
  qed
qed

lemma collapse_eq: "collapse [] xs = remdups_adj xs"
  using collapse_remdups_adj[of "[]" xs] by simp

lemma readPoints_rev: "readPoints (rev ps) = rev (readPoints ps)"
  by (simp add: readPoints_def rev_map rev_filter)

lemma normalizeRing_rev:
  assumes "hd (readPoints ps) \<noteq> last (readPoints ps)"
  shows "normalizeRing (rev ps) = rev (normalizeRing ps)"
proof -
  let ?xs = "readPoints ps"
  have ne: "?xs \<noteq> [] \<Longrightarrow> hd (rev ?xs) = last ?xs \<and> last (rev ?xs) = hd ?xs"
    by (simp add: hd_rev last_rev)
  have "dropClosing ?xs = ?xs" using assms by (simp add: dropClosing_def)
  moreover have "dropClosing (rev ?xs) = rev ?xs"
    using assms ne by (cases "?xs = []") (auto simp: dropClosing_def)
  ultimately show ?thesis
    by (simp add: normalizeRing_def readPoints_rev collapse_eq)
qed

lemma triangulateRing_rev:
  assumes "signedArea2D ring < 0"
  shows "triangulateRing ring
         = map (mapTriangle (mapIndex (length ring))) (triangulateRing (rev ring))
         \<and> triangulateRing (rev ring) = clipRing (rev ring)"
proof -
  have n: "\<not> length ring < 3" using assms signedArea2D_short[of ring] by auto
  have "\<not> signedArea2D (rev ring) < 0" using assms by (simp add: signedArea2D_rev)
  with n assms show ?thesis by (simp add: triangulateRing_def)
qed

lemma trianglePoints_mapIndex:
  "validTriangle (length ring) t \<Longrightarrow>
   trianglePoints ring (mapTriangle (mapIndex (length ring)) t) = trianglePoints (rev ring) t"
  by (auto simp: validTriangle_def trianglePoints_def mapTriangle_def mapIndex_def rev_nth
           split: prod.splits)

lemma trianglePoints_map:
  assumes "list_all (validTriangle (length ring)) ts"
  shows "map (trianglePoints ring) (map (mapTriangle (mapIndex (length ring))) ts)
         = map (trianglePoints (rev ring)) ts"
  using assms by (induction ts) (simp_all add: trianglePoints_mapIndex)

lemma coveredArea_alt:
  "coveredArea ps
   = sum_list (map triangleArea (map (trianglePoints (normalizeRing ps)) (triangulateEarClipping ps)))"
  by (simp add: coveredArea_def comp_def)

text \<open>
  Claim C4, as amended. For every ring whose normalized ring is clockwise, the returned
  triples index in the original normalized ring the very points that the clipped triples
  index in the reversed one. If moreover normalization commutes with reversal, as it does
  for every ring whose first and last points differ, the triangulation has as many
  triangles and covers the same area as the triangulation of the reversed ring: it is that
  triangulation with every index \<open>i\<close> replaced by \<open>n - 1 - i\<close>.
\<close>

theorem winding_symmetry:
  assumes "signedArea2D (normalizeRing ps) < 0"
  shows "map (trianglePoints (normalizeRing ps)) (triangulateEarClipping ps)
           = map (trianglePoints (rev (normalizeRing ps))) (clipRing (rev (normalizeRing ps)))
       \<and> (normalizeRing (rev ps) = rev (normalizeRing ps) \<longrightarrow>
            length (triangulateEarClipping ps) = length (triangulateEarClipping (rev ps))
            \<and> coveredArea ps = coveredArea (rev ps)
            \<and> triangulateEarClipping ps
                = map (mapTriangle (mapIndex (length (normalizeRing ps))))
                    (triangulateEarClipping (rev ps)))
       \<and> (hd (readPoints ps) \<noteq> last (readPoints ps) \<longrightarrow>
            normalizeRing (rev ps) = rev (normalizeRing ps))"
proof -
  let ?R = "normalizeRing ps"
  let ?T' = "triangulateRing (rev ?R)"
  have t: "triangulateEarClipping ps = map (mapTriangle (mapIndex (length ?R))) ?T'"
    and c: "?T' = clipRing (rev ?R)"
    using triangulateRing_rev[OF assms] by (simp_all add: triangulateEarClipping_def)
  have v: "list_all (validTriangle (length ?R)) ?T'"
    using triangulateRing_valid[of "rev ?R"] by simp
  have pts: "map (trianglePoints ?R) (triangulateEarClipping ps) = map (trianglePoints (rev ?R)) ?T'"
    unfolding t by (rule trianglePoints_map[OF v])
  have first: "map (trianglePoints ?R) (triangulateEarClipping ps)
               = map (trianglePoints (rev ?R)) (clipRing (rev ?R))"
    using pts c by simp
  have second: "length (triangulateEarClipping ps) = length (triangulateEarClipping (rev ps))
            \<and> coveredArea ps = coveredArea (rev ps)
            \<and> triangulateEarClipping ps
                = map (mapTriangle (mapIndex (length ?R))) (triangulateEarClipping (rev ps))"
    if comm: "normalizeRing (rev ps) = rev ?R"
  proof -
    have t': "triangulateEarClipping (rev ps) = ?T'"
      by (simp add: triangulateEarClipping_def comm)
    have "coveredArea ps = sum_list (map triangleArea (map (trianglePoints (rev ?R)) ?T'))"
      unfolding coveredArea_alt pts ..
    also have "\<dots> = coveredArea (rev ps)"
      unfolding coveredArea_alt t' comm ..
    finally have "coveredArea ps = coveredArea (rev ps)" .
    then show ?thesis using t t' by simp
  qed
  have third: "hd (readPoints ps) \<noteq> last (readPoints ps) \<longrightarrow>
               normalizeRing (rev ps) = rev ?R"
    using normalizeRing_rev[of ps] by blast
  from first second third show ?thesis by blast
qed

theorem winding_symmetry_witness:
  "signedArea2D (normalizeRing [[0, 0], [0, 3], [4, 3], [4, 0]]) < 0
   \<and> normalizeRing (rev [[0, 0], [0, 3], [4, 3], [4, 0]])
       = rev (normalizeRing [[0, 0], [0, 3], [4, 3], [4, 0]])
   \<and> triangulateEarClipping [[0, 0], [0, 3], [4, 3], [4, 0]] = [(0, 3, 2), (2, 1, 0)]
   \<and> triangulateEarClipping (rev [[0, 0], [0, 3], [4, 3], [4, 0]]) = [(3, 0, 1), (1, 2, 3)]
   \<and> coveredArea [[0, 0], [0, 3], [4, 3], [4, 0]] = 12
   \<and> coveredArea (rev [[0, 0], [0, 3], [4, 3], [4, 0]]) = 12"
proof -
  have a: "signedArea2D (normalizeRing [[0, 0], [0, 3], [4, 3], [4, 0]]) < 0"
    by code_simp
  have n: "normalizeRing (rev [[0, 0], [0, 3], [4, 3], [4, 0]])
           = rev (normalizeRing [[0, 0], [0, 3], [4, 3], [4, 0]])"
    by code_simp
  have t: "triangulateEarClipping (rev [[0, 0], [0, 3], [4, 3], [4, 0]]) = [(3, 0, 1), (1, 2, 3)]"
    by code_simp
  have l: "length (normalizeRing [[0, 0], [0, 3], [4, 3], [4, 0]]) = 4"
    by code_simp
  have c: "coveredArea (rev [[0, 0], [0, 3], [4, 3], [4, 0]]) = 12"
    by code_simp
  show ?thesis
    using winding_symmetry[OF a] a n
    unfolding t l c by (simp add: mapTriangle_def mapIndex_def)
qed

text \<open>
  Without the condition the claim fails. A closed ring (first point repeated at the end)
  is normalized by dropping its last point, and so is its reversal: the two normalized
  rings are rotations of one another, and on a self-intersecting ring the ear search covers
  different areas. A closing point repeated twice survives normalization once, and the
  clockwise ring yields no triangle where its reversal yields one.
\<close>

theorem winding_symmetry_counterexample:
  "signedArea2D (normalizeRing [[2, 3], [0, 1], [1, 1], [0, 2], [2, 3]]) < 0
   \<and> 0 < signedArea2D (normalizeRing (rev [[2, 3], [0, 1], [1, 1], [0, 2], [2, 3]]))
   \<and> coveredArea [[2, 3], [0, 1], [1, 1], [0, 2], [2, 3]] = 5 / 2
   \<and> coveredArea (rev [[2, 3], [0, 1], [1, 1], [0, 2], [2, 3]]) = 3 / 2
   \<and> signedArea2D (normalizeRing [[0, 0], [0, 1], [1, 0], [0, 0], [0, 0]]) < 0
   \<and> length (triangulateEarClipping [[0, 0], [0, 1], [1, 0], [0, 0], [0, 0]]) = 0
   \<and> length (triangulateEarClipping (rev [[0, 0], [0, 1], [1, 0], [0, 0], [0, 0]])) = 1"
proof -
  have "signedArea2D (normalizeRing [[2, 3], [0, 1], [1, 1], [0, 2], [2, 3]]) < 0"
    by code_simp
  moreover have "0 < signedArea2D (normalizeRing (rev [[2, 3], [0, 1], [1, 1], [0, 2], [2, 3]]))"
    by code_simp
  moreover have "coveredArea [[2, 3], [0, 1], [1, 1], [0, 2], [2, 3]] = 5 / 2"
    by code_simp
  moreover have "coveredArea (rev [[2, 3], [0, 1], [1, 1], [0, 2], [2, 3]]) = 3 / 2"
    by code_simp
  moreover have "signedArea2D (normalizeRing [[0, 0], [0, 1], [1, 0], [0, 0], [0, 0]]) < 0"
    by code_simp
  moreover have "length (triangulateEarClipping [[0, 0], [0, 1], [1, 0], [0, 0], [0, 0]]) = 0"
    by code_simp
  moreover have "length (triangulateEarClipping (rev [[0, 0], [0, 1], [1, 0], [0, 0], [0, 0]])) = 1"
    by code_simp
  ultimately show ?thesis by blast
qed

section \<open>Room overlays\<close>

lemma eps_pos: "0 < eps"
  by (simp add: eps_def)

lemma cross_degenerate: "cross a a c = 0" "cross a b b = 0" "cross a b a = 0"
  by (simp_all add: cross_def)

lemma cross_distinct:
  assumes "eps < cross a b c"
  shows "a \<noteq> b \<and> b \<noteq> c \<and> a \<noteq> c"
  using assms eps_pos cross_degenerate by (metis less_irrefl less_trans)

lemma ear_three_points:
  assumes "findEar r ix = Some pos" and "set ix \<subseteq> {..<length r}" and "3 \<le> length ix"
  shows "3 \<le> card (set r)"
proof -
  let ?m = "length ix"
  have pos: "pos < ?m" and ear: "isEarAt r ix pos" using findEar_Some[OF assms(1)] by simp_all
  let ?a = "r ! prevAt ix pos" and ?b = "r ! (ix ! pos)" and ?c = "r ! nextAt ix pos"
  have c: "eps < cross ?a ?b ?c"
    using ear by (simp add: isEarAt_def Let_def split: if_splits)
  have "0 < ?m" using assms(3) by linarith
  then have "(pos + ?m - 1) mod ?m < ?m" "(pos + 1) mod ?m < ?m"
    by (rule mod_less_divisor)+
  then have "prevAt ix pos \<in> set ix" "nextAt ix pos \<in> set ix" "ix ! pos \<in> set ix"
    using pos by (simp_all add: prevAt_def nextAt_def)
  then have "prevAt ix pos < length r" "nextAt ix pos < length r" "ix ! pos < length r"
    using assms(2) by auto
  then have "{?a, ?b, ?c} \<subseteq> set r" by simp
  then have "card {?a, ?b, ?c} \<le> card (set r)" by (intro card_mono) simp_all
  moreover have "card {?a, ?b, ?c} = 3" using cross_distinct[OF c] by simp
  ultimately show ?thesis by simp
qed

lemma clipRing_nonempty:
  assumes "clipRing r \<noteq> []"
  shows "length r = 3 \<or> (3 < length r \<and> (\<exists>pos. findEar r [0..<length r] = Some pos))"
proof (cases "3 < length r")
  case False
  then have "earLoop r (length r) [0..<length r] [] 0 = ([0..<length r], [], 0)"
    by (intro earLoop_stop) simp
  with assms show ?thesis
    by (simp add: clipRing_def closeLast_def split: if_splits)
next
  case True
  then have g: "0 < length r * length r" by auto
  show ?thesis
  proof (cases "findEar r [0..<length r]")
    case None
    have "earLoop r (length r) [0..<length r] [] 0 = ([0..<length r], [], 0 + 1)"
      by (rule earLoop_none) (use True g None in simp_all)
    with assms True show ?thesis
      by (simp add: clipRing_def closeLast_def)
  next
    case (Some pos)
    with True show ?thesis by simp
  qed
qed

lemma three_distinct:
  assumes "length R = 3" and "distinct_adj R" and "hd R \<noteq> last R"
  shows "3 \<le> card (set R)"
proof -
  obtain a b c where R: "R = [a, b, c]"
    using assms(1) by (cases R; cases "tl R"; cases "tl (tl R)") auto
  with assms(2,3) have "a \<noteq> b" "b \<noteq> c" "a \<noteq> c" by simp_all
  with R show ?thesis by simp
qed

lemma triangulateRing_nonempty_card:
  assumes "triangulateRing R \<noteq> []" and "distinct_adj R" and "2 \<le> length R \<longrightarrow> hd R \<noteq> last R"
  shows "3 \<le> card (set R)"
proof -
  have n: "3 \<le> length R" using assms(1) by (auto simp: triangulateRing_def split: if_splits)
  define C where "C = (if signedArea2D R < 0 then rev R else R)"
  have C: "length C = length R" "set C = set R" by (simp_all add: C_def)
  have "clipRing C \<noteq> []"
    using assms(1) n by (auto simp: triangulateRing_def C_def split: if_splits)
  then consider "length C = 3" | pos where "3 < length C" "findEar C [0..<length C] = Some pos"
    using clipRing_nonempty by blast
  then show ?thesis
  proof cases
    case 1
    with C assms n show ?thesis by (intro three_distinct) simp_all
  next
    case 2
    have "3 \<le> card (set C)"
      by (rule ear_three_points[OF 2(2)]) (use 2(1) in auto)
    with C show ?thesis by simp
  qed
qed

lemma normalizeRing_distinct_adj: "distinct_adj (normalizeRing ps)"
  by (simp add: normalizeRing_def collapse_eq)

lemma dropClosing_props:
  assumes "distinct_adj R"
  shows "distinct_adj (dropClosing R)
         \<and> (2 \<le> length (dropClosing R) \<longrightarrow> hd (dropClosing R) \<noteq> last (dropClosing R))
         \<and> set (dropClosing R) \<subseteq> set R"
proof (cases "2 \<le> length R \<and> hd R = last R")
  case False
  with assms show ?thesis by (auto simp: dropClosing_def)
next
  case True
  let ?D = "butlast R"
  have R: "R = ?D @ [last R]" using True by (cases "R = []") simp_all
  have D: "?D \<noteq> []" using True by (cases R; cases "tl R") auto
  have "distinct_adj (?D @ [last R])" using assms R by simp
  then have a: "distinct_adj ?D" "last ?D \<noteq> last R"
    using D by (simp_all add: distinct_adj_append_iff)
  have "hd ?D = hd R" using D by (cases R) auto
  with a True have "hd ?D \<noteq> last ?D" by simp
  moreover have "set ?D \<subseteq> set R" by (auto dest: in_set_butlastD)
  ultimately show ?thesis using a True by (simp add: dropClosing_def)
qed

lemma readPoints_translate:
  "readPoints (translateRing (xo, yo, zo) R) = map (\<lambda>(x, y). (x - xo, y - yo)) R"
  by (induction R) (auto simp: readPoints_def translateRing_def)

lemma overlay_needs_three:
  assumes "triangulateEarClipping (translateRing off (normalizeRing pts)) \<noteq> []"
  shows "3 \<le> card (set (normalizeRing pts))"
proof -
  obtain xo yo zo where off: "off = (xo, yo, zo)" by (cases off) auto
  define f where "f = (\<lambda>(x :: real, y :: real). (x - xo, y - yo))"
  have inj: "inj f" by (auto simp: inj_on_def f_def)
  let ?R = "normalizeRing pts"
  let ?D = "dropClosing (map f ?R)"
  have "distinct_adj (map f ?R)"
    by (rule distinct_adj_mapI[OF normalizeRing_distinct_adj]) (rule inj_on_subset[OF inj], simp)
  from dropClosing_props[OF this]
  have D: "distinct_adj ?D" "2 \<le> length ?D \<longrightarrow> hd ?D \<noteq> last ?D" "set ?D \<subseteq> set (map f ?R)"
    by simp_all
  have "normalizeRing (translateRing off ?R) = remdups_adj ?D"
    by (simp add: normalizeRing_def off readPoints_translate collapse_eq f_def)
  also have "\<dots> = ?D" using D(1) by (simp add: distinct_adj_altdef)
  finally have "triangulateRing ?D \<noteq> []"
    using assms by (simp add: triangulateEarClipping_def)
  then have "3 \<le> card (set ?D)" by (rule triangulateRing_nonempty_card[OF _ D(1,2)])
  also have "\<dots> \<le> card (set (map f ?R))" by (rule card_mono[OF _ D(3)]) simp
  also have "\<dots> \<le> card (set ?R)" by (simp add: card_image_le)
  finally show ?thesis .
qed

lemma three_points_triangulate:
  assumes "length R = 3"
  shows "triangulateRing R \<noteq> []"
proof -
  have c: "clipRing C \<noteq> []" if "length C = 3" for C :: "point list"
  proof -
    have "earLoop C (length C) [0..<length C] [] 0 = ([0..<length C], [], 0)"
      by (rule earLoop_stop) (simp add: that)
    then show ?thesis by (simp add: clipRing_def closeLast_def that)
  qed
  show ?thesis using assms c[of R] c[of "rev R"] by (simp add: triangulateRing_def)
qed

lemma addOverlays_dom:
  "\<exists>meshes'. addOverlays True off rooms meshes = Inr meshes'
     \<and> dom meshes' = dom meshes \<union>
         {roomId. \<exists>pts. (roomId, Val pts) \<in> set rooms
                    \<and> triangulateEarClipping (translateRing off (normalizeRing pts)) \<noteq> []}"
proof (induction rooms arbitrary: meshes)
  case Nil
  show ?case by simp
next
  case (Cons room rooms)
  let ?S = "\<lambda>rs. {roomId. \<exists>pts. (roomId, Val pts) \<in> set rs
                    \<and> triangulateEarClipping (translateRing off (normalizeRing pts)) \<noteq> []}"
  obtain roomId polygon where room: "room = (roomId, polygon)" by (cases room) auto
  have skip: ?case
    if same: "addOverlays True off (room # rooms) meshes = addOverlays True off rooms meshes"
      and S: "?S (room # rooms) = ?S rooms"
  proof -
    from Cons.IH[of meshes] obtain meshes' where
      "addOverlays True off rooms meshes = Inr meshes'" "dom meshes' = dom meshes \<union> ?S rooms"
      by blast
    then have "addOverlays True off (room # rooms) meshes = Inr meshes'
               \<and> dom meshes' = dom meshes \<union> ?S (room # rooms)"
      by (simp only: same S)
    then show ?thesis by blast
  qed
  show ?case
  proof (cases polygon)
    case Undefined
    show ?thesis by (rule skip) (simp_all add: room Undefined)
  next
    case Null
    show ?thesis by (rule skip) (simp_all add: room Null)
  next
    case (Val pts)
    let ?ring = "translateRing off (normalizeRing pts)"
    show ?thesis
    proof (cases "triangulateEarClipping ?ring = []")
      case True
      show ?thesis by (rule skip) (auto simp: room Val True Let_def)
    next
      case False
      let ?m = "meshes(roomId \<mapsto> buildOverlay off roomId ?ring (triangulateEarClipping ?ring))"
      from Cons.IH[of ?m] obtain meshes' where
        r: "addOverlays True off rooms ?m = Inr meshes'" and d: "dom meshes' = dom ?m \<union> ?S rooms"
        by blast
      have "addOverlays True off (room # rooms) meshes = Inr meshes'"
        using r False by (simp add: room Val Let_def)
      moreover have "?S (room # rooms) = insert roomId (?S rooms)"
        using False by (auto simp: room Val)
      then have "dom meshes' = dom meshes \<union> ?S (room # rooms)"
        using d by simp
      ultimately show ?thesis by blast
    qed
  qed
qed

lemma addOverlays_tagged:
  assumes "addOverlays grp off rooms meshes = Inr meshes'"
    and "\<forall>roomId mesh. meshes roomId = Some mesh \<longrightarrow> o_roomId mesh = roomId \<and> o_opacity mesh = 0"
  shows "\<forall>roomId mesh. meshes' roomId = Some mesh \<longrightarrow> o_roomId mesh = roomId \<and> o_opacity mesh = 0"
  using assms
proof (induction rooms arbitrary: meshes)
  case Nil
  then show ?case by simp
next
  case (Cons room rooms)
  obtain rid polygon where room: "room = (rid, polygon)" by (cases room) auto
  have skip: ?case
    if "addOverlays grp off (room # rooms) meshes = addOverlays grp off rooms meshes"
  proof -
    have "addOverlays grp off rooms meshes = Inr meshes'"
      using Cons.prems(1) that by simp
    from Cons.IH[OF this Cons.prems(2)] show ?thesis .
  qed
  show ?case
  proof (cases polygon)
    case Undefined
    show ?thesis by (rule skip) (simp add: room Undefined)
  next
    case Null
    show ?thesis by (rule skip) (simp add: room Null)
  next
    case (Val pts)
    let ?ring = "translateRing off (normalizeRing pts)"
    show ?thesis
    proof (cases "triangulateEarClipping ?ring = []")
      case True
      show ?thesis by (rule skip) (simp add: room Val True Let_def)
    next
      case False
      let ?o = "buildOverlay off rid ?ring (triangulateEarClipping ?ring)"
      have step: "addOverlays grp off (room # rooms) meshes
                  = (if \<not> grp then Inl TypeError else addOverlays grp off rooms (meshes(rid \<mapsto> ?o)))"
        using False by (simp add: room Val Let_def)
      have run: "addOverlays grp off rooms (meshes(rid \<mapsto> ?o)) = Inr meshes'"
        using Cons.prems(1) unfolding step by (cases grp) simp_all
      have o: "o_roomId ?o = rid" "o_opacity ?o = 0"
        by (simp_all add: buildOverlay_def split: prod.splits)
      have "\<forall>roomId mesh. (meshes(rid \<mapsto> ?o)) roomId = Some mesh \<longrightarrow>
              o_roomId mesh = roomId \<and> o_opacity mesh = 0"
      proof (intro allI impI)
        fix roomId mesh
        assume m: "(meshes(rid \<mapsto> ?o)) roomId = Some mesh"
        show "o_roomId mesh = roomId \<and> o_opacity mesh = 0"
        proof (cases "roomId = rid")
          case True
          with m have "mesh = ?o" by simp
          with o True show ?thesis by simp
        next
          case False
          with m have "meshes roomId = Some mesh" by simp
          with Cons.prems(2) show ?thesis by blast
        qed
      qed
      from Cons.IH[OF run this] show ?thesis .
    qed
  qed
qed

text \<open>
  Claim C2. In an initialised scene \<open>rebuildRoomOverlays\<close> returns a scene and raises
  nothing, whatever the polygons. The rooms that hold an overlay afterwards are exactly the
  room ids of \<open>metadata.rooms\<close> whose polygon is an array, has at least three distinct
  points after normalization and is given at least one triangle by the triangulation of the
  translated ring; every other room is left out. A ring of exactly three points after
  normalization always gets its overlay. Each overlay is stored under its room id, tagged
  with it, and fully transparent. Without a rooms object no overlay remains.
\<close>

theorem rebuildRoomOverlays_overlays:
  assumes "roomOverlayGroup st"
  shows "\<exists>st'. rebuildRoomOverlays pr st = Inr st'
     \<and> (\<forall>rooms. p_rooms pr = Val rooms \<longrightarrow>
          dom (roomOverlayMeshes st')
            = {roomId. \<exists>pts. (roomId, Val pts) \<in> set rooms
                 \<and> 3 \<le> card (set (normalizeRing pts))
                 \<and> triangulateEarClipping (translateRing (p_worldOffset pr) (normalizeRing pts)) \<noteq> []}
          \<and> (\<forall>roomId pts. (roomId, Val pts) \<in> set rooms
                \<and> length (normalizeRing (translateRing (p_worldOffset pr) (normalizeRing pts))) = 3
                \<longrightarrow> roomId \<in> dom (roomOverlayMeshes st')))
     \<and> ((\<forall>rooms. p_rooms pr \<noteq> Val rooms) \<longrightarrow> roomOverlayMeshes st' = Map.empty)
     \<and> (\<forall>roomId mesh. roomOverlayMeshes st' roomId = Some mesh \<longrightarrow>
          o_roomId mesh = roomId \<and> o_opacity mesh = 0)"
proof (cases "p_rooms pr")
  case Undefined
  with assms show ?thesis by (simp add: rebuildRoomOverlays_def disposeRoomOverlays_def)
next
  case Null
  with assms show ?thesis by (simp add: rebuildRoomOverlays_def disposeRoomOverlays_def)
next
  case (Val rooms)
  let ?off = "p_worldOffset pr"
  let ?tri = "\<lambda>pts. triangulateEarClipping (translateRing ?off (normalizeRing pts))"
  from addOverlays_dom[of ?off rooms Map.empty] obtain meshes' where
    r: "addOverlays True ?off rooms Map.empty = Inr meshes'"
    and d: "dom meshes' = {roomId. \<exists>pts. (roomId, Val pts) \<in> set rooms \<and> ?tri pts \<noteq> []}"
    by auto
  let ?st' = "st\<lparr>roomOverlayMeshes := meshes'\<rparr>"
  have run: "rebuildRoomOverlays pr st = Inr ?st'"
    using assms r by (simp add: rebuildRoomOverlays_def disposeRoomOverlays_def Val)
  have d': "dom (roomOverlayMeshes ?st')
            = {roomId. \<exists>pts. (roomId, Val pts) \<in> set rooms
                 \<and> 3 \<le> card (set (normalizeRing pts)) \<and> ?tri pts \<noteq> []}"
  proof -
    have "(\<exists>pts. (roomId, Val pts) \<in> set rooms \<and> ?tri pts \<noteq> [])
          \<longleftrightarrow> (\<exists>pts. (roomId, Val pts) \<in> set rooms
                 \<and> 3 \<le> card (set (normalizeRing pts)) \<and> ?tri pts \<noteq> [])" for roomId
      using overlay_needs_three[of ?off] by blast
    then show ?thesis using d by simp
  qed
  have three: "\<forall>roomId pts. (roomId, Val pts) \<in> set rooms
                \<and> length (normalizeRing (translateRing ?off (normalizeRing pts))) = 3
                \<longrightarrow> roomId \<in> dom (roomOverlayMeshes ?st')"
  proof (intro allI impI)
    fix roomId pts
    assume a: "(roomId, Val pts) \<in> set rooms
                \<and> length (normalizeRing (translateRing ?off (normalizeRing pts))) = 3"
    then have "?tri pts \<noteq> []"
      unfolding triangulateEarClipping_def by (intro three_points_triangulate) simp
    with a have "roomId \<in> dom meshes'" unfolding d by blast
    then show "roomId \<in> dom (roomOverlayMeshes ?st')" by simp
  qed
  have tag: "\<forall>roomId mesh. roomOverlayMeshes ?st' roomId = Some mesh \<longrightarrow>
          o_roomId mesh = roomId \<and> o_opacity mesh = 0"
    using addOverlays_tagged[OF r] by simp
  have none: "(\<forall>rooms. p_rooms pr \<noteq> Val rooms) \<longrightarrow> roomOverlayMeshes ?st' = Map.empty"
    using Val by simp
  have some: "\<forall>rooms'. p_rooms pr = Val rooms' \<longrightarrow>
          dom (roomOverlayMeshes ?st')
            = {roomId. \<exists>pts. (roomId, Val pts) \<in> set rooms'
                 \<and> 3 \<le> card (set (normalizeRing pts)) \<and> ?tri pts \<noteq> []}
          \<and> (\<forall>roomId pts. (roomId, Val pts) \<in> set rooms'
                \<and> length (normalizeRing (translateRing ?off (normalizeRing pts))) = 3
                \<longrightarrow> roomId \<in> dom (roomOverlayMeshes ?st'))"
    using d' three by (simp only: Val js.inject) blast
  show ?thesis
    apply (rule exI[of _ ?st'])
    apply (intro conjI)
    apply (rule run some none tag)+
    done
qed


theorem rebuildRoomOverlays_overlays_witness:
  "\<exists>st'. rebuildRoomOverlays
            ((oneSensorProps True)\<lparr>p_rooms := Val [(''living'', Val quad),
                 (''hall'', Val [[0, 0], [1, 0], [2, 0], [3, 0]]),
                 (''attic'', Val [[0, 0], [1, 1], [0, 0]]), (''void'', Undefined)]\<rparr>)
            initialScene = Inr st'
         \<and> dom (roomOverlayMeshes st') = {''living''}"
proof -
  let ?L = "[(''living'', Val quad), (''hall'', Val [[0, 0], [1, 0], [2, 0], [3, 0]]),
             (''attic'', Val [[0, 0], [1, 1], [0, 0]]), (''void'', Undefined)]"
  let ?pr = "(oneSensorProps True)\<lparr>p_rooms := Val ?L\<rparr>"
  let ?tri = "\<lambda>pts. triangulateEarClipping (translateRing (p_worldOffset ?pr) (normalizeRing pts))"
  have g: "roomOverlayGroup initialScene" by (simp add: initialScene_def)
  have o: "p_worldOffset ?pr = (0, 0, 0)" by (simp add: oneSensorProps_def)
  have rooms: "p_rooms ?pr = Val ?L" by simp
  have t1: "?tri quad \<noteq> []"
    unfolding quad_def o by code_simp
  have t2: "?tri [[0, 0], [1, 0], [2, 0], [3, 0]] = []"
    unfolding o by code_simp
  have t3: "?tri [[0, 0], [1, 1], [0, 0]] = []"
    unfolding o by code_simp
  have n: "normalizeRing quad = [(0, 0), (4, 0), (4, 3), (0, 3)]"
    unfolding quad_def by code_simp
  have c: "3 \<le> card (set (normalizeRing quad))" unfolding n by simp
  from rebuildRoomOverlays_overlays[OF g, of ?pr] obtain st' where
    r: "rebuildRoomOverlays ?pr initialScene = Inr st'"
    and a: "\<forall>rooms. p_rooms ?pr = Val rooms \<longrightarrow>
          dom (roomOverlayMeshes st')
            = {roomId. \<exists>pts. (roomId, Val pts) \<in> set rooms
                 \<and> 3 \<le> card (set (normalizeRing pts)) \<and> ?tri pts \<noteq> []}
          \<and> (\<forall>roomId pts. (roomId, Val pts) \<in> set rooms
                \<and> length (normalizeRing (translateRing (p_worldOffset ?pr) (normalizeRing pts))) = 3
                \<longrightarrow> roomId \<in> dom (roomOverlayMeshes st'))"
    by blast
  from a rooms have d: "dom (roomOverlayMeshes st')
            = {roomId. \<exists>pts. (roomId, Val pts) \<in> set ?L
                 \<and> 3 \<le> card (set (normalizeRing pts)) \<and> ?tri pts \<noteq> []}"
    by blast
  have "dom (roomOverlayMeshes st') = {''living''}"
  proof (intro equalityI subsetI)
    fix x assume "x \<in> dom (roomOverlayMeshes st')"
    then obtain pts where p: "(x, Val pts) \<in> set ?L" "?tri pts \<noteq> []"
      unfolding d by blast
    from p(1) consider "x = ''living''" "pts = quad"
      | "x = ''hall''" "pts = [[0, 0], [1, 0], [2, 0], [3, 0]]"
      | "x = ''attic''" "pts = [[0, 0], [1, 1], [0, 0]]"
      by auto
    then show "x \<in> {''living''}"
    proof cases
      case 1 then show ?thesis by simp
    next
      case 2 with p(2) t2 show ?thesis by simp
    next
      case 3 with p(2) t3 show ?thesis by simp
    qed
  next
    fix x assume "x \<in> {''living''}"
    then have "(x, Val quad) \<in> set ?L" by simp
    with c t1 show "x \<in> dom (roomOverlayMeshes st')" unfolding d by blast
  qed
  with r show ?thesis by blast
qed

end
